theory Spec2Isabelle
  imports Complex_Main
begin

section \<open>Python values, dictionaries and exceptions\<close>

text \<open>
  The backend handles JSON-like data: dictionaries from strings to values that are
  \<^verbatim>\<open>None\<close>, integers, floats or strings. Floats are modelled by real numbers
  (rounding, infinities and NaN are outside the model). Exceptions are values of a sum type:
  \<open>Inl e\<close> is the raised exception, \<open>Inr v\<close> the returned value.
\<close>

datatype pyval = PNone | PInt int | PFloat real | PStr string

datatype error = KeyError | TypeError | ValueError | AttributeError

type_synonym pydict = "string \<rightharpoonup> pyval"

definition ebind :: "error + 'a \<Rightarrow> ('a \<Rightarrow> error + 'b) \<Rightarrow> error + 'b" where
  "ebind r f = (case r of Inl e \<Rightarrow> Inl e | Inr v \<Rightarrow> f v)"

text \<open>\<^verbatim>\<open>d.get(k)\<close>: the value, or \<^verbatim>\<open>None\<close> when the key is absent.\<close>

definition dget :: "pydict \<Rightarrow> string \<Rightarrow> pyval" where
  "dget d k = (case d k of None \<Rightarrow> PNone | Some v \<Rightarrow> v)"

text \<open>\<^verbatim>\<open>d.get(k, default)\<close>.\<close>

definition dget_default :: "pydict \<Rightarrow> string \<Rightarrow> pyval \<Rightarrow> pyval" where
  "dget_default d k dflt = (case d k of None \<Rightarrow> dflt | Some v \<Rightarrow> v)"

text \<open>\<^verbatim>\<open>d[k]\<close>: raises KeyError when the key is absent.\<close>

definition dsub :: "pydict \<Rightarrow> string \<Rightarrow> error + pyval" where
  "dsub d k = (case d k of None \<Rightarrow> Inl KeyError | Some v \<Rightarrow> Inr v)"

text \<open>
  The builtin \<^verbatim>\<open>float(x)\<close>. Parsing a string is Python's own grammar, which is not
  part of this repository: it is the parameter \<open>sf\<close> (\<open>None\<close> when the string is
  not a number, where Python raises ValueError).
\<close>

definition py_float :: "(string \<Rightarrow> real option) \<Rightarrow> pyval \<Rightarrow> error + real" where
  "py_float sf v =
     (case v of
        PNone \<Rightarrow> Inl TypeError
      | PInt i \<Rightarrow> Inr (of_int i)
      | PFloat r \<Rightarrow> Inr r
      | PStr s \<Rightarrow> (case sf s of None \<Rightarrow> Inl ValueError | Some r \<Rightarrow> Inr r))"

text \<open>
  The builtin \<^verbatim>\<open>int(x)\<close>: a float is truncated towards zero; parsing a string is
  the parameter \<open>si\<close>.
\<close>

definition py_int :: "(string \<Rightarrow> int option) \<Rightarrow> pyval \<Rightarrow> error + int" where
  "py_int si v =
     (case v of
        PNone \<Rightarrow> Inl TypeError
      | PInt i \<Rightarrow> Inr i
      | PFloat r \<Rightarrow> Inr (if 0 \<le> r then \<lfloor>r\<rfloor> else \<lceil>r\<rceil>)
      | PStr s \<Rightarrow> (case si s of None \<Rightarrow> Inl ValueError | Some i \<Rightarrow> Inr i))"

text \<open>A value used as a number by the \<^verbatim>\<open>math\<close> module: anything else is a TypeError.\<close>

definition as_real :: "pyval \<Rightarrow> error + real" where
  "as_real v =
     (case v of
        PInt i \<Rightarrow> Inr (of_int i)
      | PFloat r \<Rightarrow> Inr r
      | _ \<Rightarrow> Inl TypeError)"

fun is_num :: "pyval \<Rightarrow> bool" where
  "is_num (PInt i) = True"
| "is_num (PFloat r) = True"
| "is_num v = False"

section \<open>Geometry (conj.py)\<close>

text \<open>\<^verbatim>\<open>math.radians\<close>.\<close>

definition radians :: "pyval \<Rightarrow> error + real" where
  "radians v = ebind (as_real v) (\<lambda>x. Inr (x * pi / 180))"

text \<open>The nested \<^verbatim>\<open>to_ecef(lat, lon, alt_km)\<close> with \<^verbatim>\<open>R = 6371.0\<close>.\<close>

definition to_ecef :: "pyval \<Rightarrow> pyval \<Rightarrow> real \<Rightarrow> error + (real \<times> real \<times> real)" where
  "to_ecef lat lon alt_km =
     ebind (radians lat) (\<lambda>phi.
     ebind (radians lon) (\<lambda>lam.
       let r = 6371 + alt_km;
           x = r * cos phi * cos lam;
           y = r * cos phi * sin lam;
           z = r * sin phi
       in Inr (x, y, z)))"

definition euclidean_km_from_latlonalt ::
  "pyval \<Rightarrow> pyval \<Rightarrow> real \<Rightarrow> pyval \<Rightarrow> pyval \<Rightarrow> real \<Rightarrow> error + real" where
  "euclidean_km_from_latlonalt lat1 lon1 alt1_km lat2 lon2 alt2_km =
     ebind (to_ecef lat1 lon1 alt1_km) (\<lambda>(x1, y1, z1).
     ebind (to_ecef lat2 lon2 alt2_km) (\<lambda>(x2, y2, z2).
       Inr (sqrt ((x1 - x2)\<^sup>2 + (y1 - y2)\<^sup>2 + (z1 - z2)\<^sup>2))))"

section \<open>Proximity screening (conj.py)\<close>

text \<open>The test \<^verbatim>\<open>a.get('satlat') is None or a.get('satlng') is None\<close>.\<close>

definition coords_missing :: "pydict \<Rightarrow> bool" where
  "coords_missing a \<longleftrightarrow> dget a ''satlat'' = PNone \<or> dget a ''satlng'' = PNone"

text \<open>
  The call of \<^verbatim>\<open>euclidean_km_from_latlonalt\<close> inside the inner loop, with its arguments
  evaluated from left to right.
\<close>

definition pair_distance :: "(string \<Rightarrow> real option) \<Rightarrow> pydict \<Rightarrow> pydict \<Rightarrow> error + real" where
  "pair_distance sf a b =
     ebind (dsub a ''satlat'') (\<lambda>lat1.
     ebind (dsub a ''satlng'') (\<lambda>lon1.
     ebind (py_float sf (dget_default a ''satalt'' (PFloat 0))) (\<lambda>alt1.
     ebind (dsub b ''satlat'') (\<lambda>lat2.
     ebind (dsub b ''satlng'') (\<lambda>lon2.
     ebind (py_float sf (dget_default b ''satalt'' (PFloat 0))) (\<lambda>alt2.
       euclidean_km_from_latlonalt lat1 lon1 alt1 lat2 lon2 alt2))))))"

text \<open>The inner loop \<^verbatim>\<open>for j in range(i + 1, n)\<close>, over the objects after \<open>a\<close>.\<close>

fun close_to :: "(string \<Rightarrow> real option) \<Rightarrow> real \<Rightarrow> pydict \<Rightarrow> pydict list \<Rightarrow>
    error + (pydict \<times> pydict \<times> real) list" where
  "close_to sf threshold_km a [] = Inr []"
| "close_to sf threshold_km a (b # bs) =
     (if coords_missing b then close_to sf threshold_km a bs
      else ebind (pair_distance sf a b) (\<lambda>d.
           ebind (close_to sf threshold_km a bs) (\<lambda>pairs.
             Inr (if d \<le> threshold_km then (a, b, d) # pairs else pairs))))"

text \<open>The outer loop \<^verbatim>\<open>for i in range(n)\<close>.\<close>

fun find_close_pairs :: "(string \<Rightarrow> real option) \<Rightarrow> pydict list \<Rightarrow> real \<Rightarrow>
    error + (pydict \<times> pydict \<times> real) list" where
  "find_close_pairs sf [] threshold_km = Inr []"
| "find_close_pairs sf (a # rest) threshold_km =
     (if coords_missing a then find_close_pairs sf rest threshold_km
      else ebind (close_to sf threshold_km a rest) (\<lambda>pairs_a.
           ebind (find_close_pairs sf rest threshold_km) (\<lambda>pairs.
             Inr (pairs_a @ pairs))))"

text \<open>
  The objects the scanner is meant for (the docstring of \<^verbatim>\<open>find_close_pairs\<close>, and every
  complete entry the backend writes): latitude and longitude are numbers or \<^verbatim>\<open>None\<close>
  or absent, the altitude is a number or absent.
\<close>

definition tracked_object :: "pydict \<Rightarrow> bool" where
  "tracked_object a \<longleftrightarrow>
     (dget a ''satlat'' = PNone \<or> is_num (dget a ''satlat'')) \<and>
     (dget a ''satlng'' = PNone \<or> is_num (dget a ''satlng'')) \<and>
     is_num (dget_default a ''satalt'' (PFloat 0))"

section \<open>The catalog (main.py)\<close>

text \<open>
  \<^verbatim>\<open>tracked: Dict[int, dict]\<close> maps an id to a dictionary object. Python dictionaries are
  mutable objects held by reference, so the model has an explicit store: \<open>heap\<close> lists the
  entry dictionaries by address, and \<open>tracked\<close> is the catalog in insertion order, each id with
  the address of its entry. \<open>last_n2yo_error\<close> is the global \<^verbatim>\<open>_last_n2yo_error\<close>.
\<close>

type_synonym addr = nat

record state =
  heap :: "pydict list"
  tracked :: "(int \<times> addr) list"
  last_n2yo_error :: pyval

text \<open>\<^verbatim>\<open>satid in tracked\<close> and the entry object \<^verbatim>\<open>tracked[satid]\<close> read through the store.\<close>

definition addr_of :: "state \<Rightarrow> int \<Rightarrow> addr option" where
  "addr_of s satid = map_of (tracked s) satid"

definition entry :: "state \<Rightarrow> int \<Rightarrow> pydict option" where
  "entry s satid = map_option (\<lambda>a. heap s ! a) (addr_of s satid)"

text \<open>\<^verbatim>\<open>tracked.setdefault(satid, {})\<close>: a fresh empty dictionary for an unseen id.\<close>

definition setdefault :: "state \<Rightarrow> int \<Rightarrow> state" where
  "setdefault s satid =
     (case addr_of s satid of
        Some a \<Rightarrow> s
      | None \<Rightarrow> s\<lparr>heap := heap s @ [Map.empty],
                  tracked := tracked s @ [(satid, length (heap s))]\<rparr>)"

text \<open>
  \<^verbatim>\<open>tracked[satid].update(updates)\<close>: the entry object is changed in place; the subscript
  raises KeyError for an unknown id.
\<close>

definition update_entry :: "state \<Rightarrow> int \<Rightarrow> pydict \<Rightarrow> error + state" where
  "update_entry s satid updates =
     (case addr_of s satid of
        None \<Rightarrow> Inl KeyError
      | Some a \<Rightarrow> Inr (s\<lparr>heap := (heap s)[a := (heap s ! a) ++ updates]\<rparr>))"

text \<open>
  The catalog merge as both fetch cycles write it: \<^verbatim>\<open>setdefault\<close> followed by
  \<^verbatim>\<open>update\<close> in the regional sweep, \<^verbatim>\<open>update\<close> guarded by
  \<^verbatim>\<open>if satid in tracked\<close> in the per-object refresh.
\<close>

definition merge_sweep :: "state \<Rightarrow> int \<Rightarrow> pydict \<Rightarrow> error + state" where
  "merge_sweep s satid updates = update_entry (setdefault s satid) satid updates"

definition merge_refresh :: "state \<Rightarrow> int \<Rightarrow> pydict \<Rightarrow> error + state" where
  "merge_refresh s satid updates =
     (if addr_of s satid \<noteq> None then update_entry s satid updates else Inr s)"

text \<open>\<^verbatim>\<open>list(tracked.values())\<close>: a new list of the same entry objects, that is, of their addresses.\<close>

definition snapshot :: "state \<Rightarrow> addr list" where
  "snapshot s = map snd (tracked s)"

text \<open>What a holder of references reads through them in a state.\<close>

definition deref :: "state \<Rightarrow> addr list \<Rightarrow> pydict list" where
  "deref s refs = map (\<lambda>a. heap s ! a) refs"

text \<open>
  The store is well formed when the catalog has one entry per id, no two ids share an entry
  object, and every address is allocated. Every state the backend builds is of this kind.
\<close>

definition wf_state :: "state \<Rightarrow> bool" where
  "wf_state s \<longleftrightarrow>
     distinct (map fst (tracked s)) \<and> distinct (map snd (tracked s)) \<and>
     list_all (\<lambda>a. a < length (heap s)) (map snd (tracked s))"

section \<open>The regional sweep (tracker_loop in main.py)\<close>

definition LEO_MAX_ALT :: real where
  "LEO_MAX_ALT = 2000"

definition GEO_CATEGORY :: int where
  "GEO_CATEGORY = 10"

definition MAX_PARALLEL_REQUESTS :: nat where
  "MAX_PARALLEL_REQUESTS = 4"

definition ABOVE_SEEDS :: "(real \<times> real) list" where
  "ABOVE_SEEDS = [(0, 0), (0, 120), (0, 240), (45, 60), (45, 180), (45, 300)]"

text \<open>
  \<^verbatim>\<open>float(item.get(k)) if item.get(k) is not None else None\<close>, the value stored for a
  coordinate.
\<close>

definition opt_float :: "(string \<Rightarrow> real option) \<Rightarrow> pyval \<Rightarrow> error + pyval" where
  "opt_float sf v =
     (if v \<noteq> PNone then ebind (py_float sf v) (\<lambda>r. Inr (PFloat r)) else Inr PNone)"

text \<open>
  The dictionary literal passed to \<^verbatim>\<open>update\<close> for a record of the GEO fetch. Its values
  are evaluated in order, so a conversion that raises does so before the update is applied.
\<close>

definition geo_fields :: "(string \<Rightarrow> real option) \<Rightarrow> real \<Rightarrow> pydict \<Rightarrow> int \<Rightarrow> error + pydict" where
  "geo_fields sf now item satid =
     ebind (opt_float sf (dget item ''satlat'')) (\<lambda>lat.
     ebind (opt_float sf (dget item ''satlng'')) (\<lambda>lng.
     ebind (py_float sf (dget_default item ''satalt'' (PFloat 0))) (\<lambda>alt.
       Inr [''satid'' \<mapsto> PInt satid,
            ''satname'' \<mapsto> dget item ''satname'',
            ''satlat'' \<mapsto> lat,
            ''satlng'' \<mapsto> lng,
            ''satalt'' \<mapsto> PFloat alt,
            ''category'' \<mapsto> PStr ''GEO'',
            ''last_update'' \<mapsto> PFloat now])))"

text \<open>The same for a record of the unfiltered fetch, whose altitude is converted beforehand.\<close>

definition leo_fields ::
  "(string \<Rightarrow> real option) \<Rightarrow> real \<Rightarrow> pydict \<Rightarrow> int \<Rightarrow> real \<Rightarrow> error + pydict" where
  "leo_fields sf now item satid alt =
     ebind (opt_float sf (dget item ''satlat'')) (\<lambda>lat.
     ebind (opt_float sf (dget item ''satlng'')) (\<lambda>lng.
       Inr [''satid'' \<mapsto> PInt satid,
            ''satname'' \<mapsto> dget item ''satname'',
            ''satlat'' \<mapsto> lat,
            ''satlng'' \<mapsto> lng,
            ''satalt'' \<mapsto> PFloat alt,
            ''category'' \<mapsto> PStr ''LEO'',
            ''last_update'' \<mapsto> PFloat now]))"

text \<open>
  The body of \<^verbatim>\<open>for item in geo_resp.get("above", [])\<close> for one record (a JSON object).
  The result is the state reached and the exception raised on the way, if any: what was
  written before an exception stays written.
\<close>

definition geo_item ::
  "(string \<Rightarrow> int option) \<Rightarrow> (string \<Rightarrow> real option) \<Rightarrow> real \<Rightarrow> state \<Rightarrow> pydict \<Rightarrow>
    error option \<times> state" where
  "geo_item si sf now s item =
     (case ebind (dsub item ''satid'') (py_int si) of
        Inl e \<Rightarrow> (Some e, s)
      | Inr satid \<Rightarrow>
          (let s1 = setdefault s satid in
           case geo_fields sf now item satid of
             Inl e \<Rightarrow> (Some e, s1)
           | Inr updates \<Rightarrow>
               (case update_entry s1 satid updates of
                  Inl e \<Rightarrow> (Some e, s1)
                | Inr s2 \<Rightarrow> (None, s2))))"

text \<open>The body of \<^verbatim>\<open>for item in all_resp.get("above", [])\<close> for one record.\<close>

definition leo_item ::
  "(string \<Rightarrow> int option) \<Rightarrow> (string \<Rightarrow> real option) \<Rightarrow> real \<Rightarrow> state \<Rightarrow> pydict \<Rightarrow>
    error option \<times> state" where
  "leo_item si sf now s item =
     (case py_float sf (dget_default item ''satalt'' (PFloat 0)) of
        Inl e \<Rightarrow> (Some e, s)
      | Inr alt \<Rightarrow>
          if alt < LEO_MAX_ALT then
            (case ebind (dsub item ''satid'') (py_int si) of
               Inl e \<Rightarrow> (Some e, s)
             | Inr satid \<Rightarrow>
                 (let s1 = setdefault s satid in
                  case leo_fields sf now item satid alt of
                    Inl e \<Rightarrow> (Some e, s1)
                  | Inr updates \<Rightarrow>
                      (case update_entry s1 satid updates of
                         Inl e \<Rightarrow> (Some e, s1)
                       | Inr s2 \<Rightarrow> (None, s2))))
          else (None, s))"

text \<open>The loop over the records of one response: the first exception ends it.\<close>

fun for_items :: "(state \<Rightarrow> pydict \<Rightarrow> error option \<times> state) \<Rightarrow> state \<Rightarrow> pydict list \<Rightarrow>
    error option \<times> state" where
  "for_items body s [] = (None, s)"
| "for_items body s (item # items) =
     (case body s item of
        (Some e, s1) \<Rightarrow> (Some e, s1)
      | (None, s1) \<Rightarrow> for_items body s1 items)"

text \<open>
  A response of the sweep's fetch, as the loops look at it: an exception object (left in the
  list by \<^verbatim>\<open>gather(..., return_exceptions=True)\<close>), a dictionary with its
  \<^verbatim>\<open>resp.get("error")\<close> and its \<^verbatim>\<open>resp.get("above", [])\<close> (a list of JSON objects), or any
  other JSON value.
\<close>

datatype response = RException | RDict pyval "pydict list" | ROther

text \<open>Truth value of a Python value, as in \<^verbatim>\<open>if resp.get("error")\<close>.\<close>

fun truthy :: "pyval \<Rightarrow> bool" where
  "truthy PNone = False"
| "truthy (PInt i) = (i \<noteq> 0)"
| "truthy (PFloat r) = (r \<noteq> 0)"
| "truthy (PStr s) = (s \<noteq> [])"

text \<open>\<^verbatim>\<open>error_msg.lower()\<close>, on ASCII letters; a value that is not a string has no such method.\<close>

definition lower_char :: "char \<Rightarrow> char" where
  "lower_char c =
     (case map_of (zip ''ABCDEFGHIJKLMNOPQRSTUVWXYZ'' ''abcdefghijklmnopqrstuvwxyz'') c of
        Some l \<Rightarrow> l
      | None \<Rightarrow> c)"

definition str_lower :: "pyval \<Rightarrow> error + string" where
  "str_lower v = (case v of PStr s \<Rightarrow> Inr (map lower_char s) | _ \<Rightarrow> Inl AttributeError)"

text \<open>The substring test \<^verbatim>\<open>sub in s\<close>.\<close>

fun str_contains :: "string \<Rightarrow> string \<Rightarrow> bool" where
  "str_contains sub [] = (sub = [])"
| "str_contains sub (c # cs) = (take (length sub) (c # cs) = sub \<or> str_contains sub cs)"

definition rate_limited :: "string \<Rightarrow> bool" where
  "rate_limited low \<longleftrightarrow> str_contains ''exceeded'' low \<or> str_contains ''rate limit'' low"

text \<open>
  The loops \<^verbatim>\<open>for geo_resp in geo_responses\<close> and \<^verbatim>\<open>for all_resp in all_responses\<close>,
  which differ only in the body applied to each record. \<^verbatim>\<open>break\<close> on a rate-limit message
  ends the loop normally; an exception ends it with that exception.
\<close>

fun process_responses ::
  "(state \<Rightarrow> pydict \<Rightarrow> error option \<times> state) \<Rightarrow> state \<Rightarrow> response list \<Rightarrow>
    error option \<times> state" where
  "process_responses body s [] = (None, s)"
| "process_responses body s (RException # rest) = process_responses body s rest"
| "process_responses body s (ROther # rest) = process_responses body s rest"
| "process_responses body s (RDict err records # rest) =
     (if truthy err then
        (let s1 = s\<lparr>last_n2yo_error := err\<rparr> in
         case str_lower err of
           Inl e \<Rightarrow> (Some e, s1)
         | Inr low \<Rightarrow>
             if rate_limited low then (None, s1)
             else (case for_items body s1 records of
                     (Some e, s2) \<Rightarrow> (Some e, s2)
                   | (None, s2) \<Rightarrow> process_responses body s2 rest))
      else (case for_items body s records of
              (Some e, s2) \<Rightarrow> (Some e, s2)
            | (None, s2) \<Rightarrow> process_responses body s2 rest))"

text \<open>
  A request to the external source is \<open>(lat, lng, category)\<close>. The source is a function from
  the request to its outcome, \<open>None\<close> when the call raises. \<^verbatim>\<open>fetch_geo\<close> and
  \<^verbatim>\<open>fetch_all\<close> turn an exception into the empty dictionary.
\<close>

type_synonym request = "real \<times> real \<times> int"

definition fetch_geo :: "(request \<Rightarrow> response option) \<Rightarrow> real \<times> real \<Rightarrow> response" where
  "fetch_geo above_src seed =
     (case above_src (fst seed, snd seed, GEO_CATEGORY) of
        Some resp \<Rightarrow> resp
      | None \<Rightarrow> RDict PNone [])"

definition fetch_all :: "(request \<Rightarrow> response option) \<Rightarrow> real \<times> real \<Rightarrow> response" where
  "fetch_all above_src seed =
     (case above_src (fst seed, snd seed, 0) of
        Some resp \<Rightarrow> resp
      | None \<Rightarrow> RDict PNone [])"

text \<open>
  What the fetch phase does, in order: \<open>Gather reqs\<close> issues the requests \<open>reqs\<close> together
  and waits until all of them have finished; \<open>Sleep\<close> is the pause between batches.
\<close>

datatype event = Gather "request list" | Sleep real

text \<open>
  The loop \<^verbatim>\<open>for i in range(0, len(ABOVE_SEEDS), MAX_PARALLEL_REQUESTS)\<close> from index \<open>i\<close> on.
  It returns the events, \<^verbatim>\<open>geo_responses\<close> and \<^verbatim>\<open>all_responses\<close>.
\<close>

function fetch_batches ::
  "(request \<Rightarrow> response option) \<Rightarrow> (real \<times> real) list \<Rightarrow> nat \<Rightarrow> nat \<Rightarrow>
    event list \<times> response list \<times> response list" where
  "fetch_batches above_src seeds step i =
     (if step = 0 \<or> length seeds \<le> i then ([], [], [])
      else
        (let batch = take step (drop i seeds);
             batch_geo = map (fetch_geo above_src) batch;
             batch_all = map (fetch_all above_src) batch;
             pause = (if i + step < length seeds then [Sleep (1 / 2)] else []);
             (events, geo_responses, all_responses) = fetch_batches above_src seeds step (i + step)
         in ([Gather (map (\<lambda>seed. (fst seed, snd seed, GEO_CATEGORY)) batch),
              Gather (map (\<lambda>seed. (fst seed, snd seed, 0)) batch)] @ pause @ events,
             batch_geo @ geo_responses,
             batch_all @ all_responses)))"
  by pat_completeness auto
termination
  by (relation "measure (\<lambda>(above_src, seeds, step, i). length seeds - i)") auto

declare fetch_batches.simps [simp del]

text \<open>\<^verbatim>\<open>range\<close> raises ValueError for a step of 0.\<close>

definition tracker_fetch ::
  "(request \<Rightarrow> response option) \<Rightarrow> error + (event list \<times> response list \<times> response list)" where
  "tracker_fetch above_src =
     (if MAX_PARALLEL_REQUESTS = 0 then Inl ValueError
      else Inr (fetch_batches above_src ABOVE_SEEDS MAX_PARALLEL_REQUESTS 0))"

text \<open>
  The second half of a pass of \<^verbatim>\<open>tracker_loop\<close>: the GEO responses are processed, then
  the unfiltered ones. Both loops stand in one \<^verbatim>\<open>try\<close> whose \<^verbatim>\<open>except Exception\<close> prints
  the exception and ends the pass, so an exception in the first loop skips the second.
\<close>

definition tracker_process ::
  "(string \<Rightarrow> int option) \<Rightarrow> (string \<Rightarrow> real option) \<Rightarrow> real \<Rightarrow> state \<Rightarrow>
    response list \<Rightarrow> response list \<Rightarrow> state" where
  "tracker_process si sf now s geo_responses all_responses =
     (case process_responses (geo_item si sf now) s geo_responses of
        (Some e, s1) \<Rightarrow> s1
      | (None, s1) \<Rightarrow> snd (process_responses (leo_item si sf now) s1 all_responses))"

text \<open>
  One pass of \<^verbatim>\<open>tracker_loop\<close>: the last error is cleared, all fetches are made, then the
  responses are processed. It returns the events of the fetch phase and the state after the
  pass; the loop then sleeps and starts the next pass.
\<close>

definition tracker_pass ::
  "(string \<Rightarrow> int option) \<Rightarrow> (string \<Rightarrow> real option) \<Rightarrow> (request \<Rightarrow> response option) \<Rightarrow>
    real \<Rightarrow> state \<Rightarrow> event list \<times> state" where
  "tracker_pass si sf above_src now s =
     (let s0 = s\<lparr>last_n2yo_error := PNone\<rparr> in
      case tracker_fetch above_src of
        Inl e \<Rightarrow> ([], s0)
      | Inr (events, geo_responses, all_responses) \<Rightarrow>
          (events, tracker_process si sf now s0 geo_responses all_responses))"

text \<open>
  The number of requests an event has in flight: \<^verbatim>\<open>await asyncio.gather(...)\<close> starts its
  coroutines together and resumes the pass only when all of them have finished.
\<close>

fun in_flight :: "event \<Rightarrow> nat" where
  "in_flight (Gather reqs) = length reqs"
| "in_flight (Sleep t) = 0"

fun requests_of :: "event \<Rightarrow> request list" where
  "requests_of (Gather reqs) = reqs"
| "requests_of (Sleep t) = []"

section \<open>The per-object refresh (positions_loop in main.py)\<close>

text \<open>
  A response of the position fetch: a dictionary with its \<^verbatim>\<open>resp.get("error")\<close> and its
  \<^verbatim>\<open>resp.get("positions", [])\<close> (a list of JSON objects), or any other JSON value.
\<close>

datatype pos_response = PosDict pyval "pydict list" | PosOther

text \<open>The dictionary \<^verbatim>\<open>update_position\<close> builds from the first reported position.\<close>

definition position_fields :: "(string \<Rightarrow> real option) \<Rightarrow> real \<Rightarrow> pydict \<Rightarrow> error + pydict" where
  "position_fields sf now latest =
     ebind (opt_float sf (dget latest ''satlatitude'')) (\<lambda>lat.
     ebind (opt_float sf (dget latest ''satlongitude'')) (\<lambda>lng.
     ebind (py_float sf (dget_default latest ''sataltitude'' (PFloat 0))) (\<lambda>alt.
       Inr [''satlat'' \<mapsto> lat,
            ''satlng'' \<mapsto> lng,
            ''satalt'' \<mapsto> PFloat alt,
            ''last_update'' \<mapsto> PFloat now])))"

text \<open>
  \<^verbatim>\<open>update_position(satid)\<close>. The source gives the outcome of the position fetch of an id,
  \<open>None\<close> when the call raises. Every exception inside is caught and gives the result
  \<^verbatim>\<open>None\<close>; an error response is recorded as last error.
\<close>

definition update_position ::
  "(string \<Rightarrow> real option) \<Rightarrow> (int \<Rightarrow> pos_response option) \<Rightarrow> real \<Rightarrow> state \<Rightarrow> int \<Rightarrow>
    (int \<times> pydict) option \<times> state" where
  "update_position sf positions_src now s satid =
     (case positions_src satid of
        None \<Rightarrow> (None, s)
      | Some PosOther \<Rightarrow> (None, s)
      | Some (PosDict err pos_arr) \<Rightarrow>
          if truthy err then (None, s\<lparr>last_n2yo_error := err\<rparr>)
          else (case pos_arr of
                  [] \<Rightarrow> (None, s)
                | latest # others \<Rightarrow>
                    (case position_fields sf now latest of
                       Inl e \<Rightarrow> (None, s)
                     | Inr updates \<Rightarrow> (Some (satid, updates), s))))"

text \<open>
  \<^verbatim>\<open>await asyncio.gather(*[update_position(satid) for satid in batch])\<close>: the results in
  the order of the batch. The calls do not read the catalog; they are taken here in list order.
\<close>

fun gather_positions ::
  "(string \<Rightarrow> real option) \<Rightarrow> (int \<Rightarrow> pos_response option) \<Rightarrow> real \<Rightarrow> state \<Rightarrow> int list \<Rightarrow>
    (int \<times> pydict) option list \<times> state" where
  "gather_positions sf positions_src now s [] = ([], s)"
| "gather_positions sf positions_src now s (satid # batch) =
     (let (result, s1) = update_position sf positions_src now s satid;
          (results, s2) = gather_positions sf positions_src now s1 batch
      in (result # results, s2))"

text \<open>The loop \<^verbatim>\<open>for result in results\<close>, which merges each result into the catalog.\<close>

fun apply_results :: "state \<Rightarrow> (int \<times> pydict) option list \<Rightarrow> error option \<times> state" where
  "apply_results s [] = (None, s)"
| "apply_results s (None # results) = apply_results s results"
| "apply_results s (Some (satid, updates) # results) =
     (case merge_refresh s satid updates of
        Inl e \<Rightarrow> (Some e, s)
      | Inr s1 \<Rightarrow> apply_results s1 results)"

text \<open>The loop \<^verbatim>\<open>for i in range(0, len(sats_to_update), batch_size)\<close> from index \<open>i\<close> on.\<close>

function refresh_batches ::
  "(string \<Rightarrow> real option) \<Rightarrow> (int \<Rightarrow> pos_response option) \<Rightarrow> real \<Rightarrow> int list \<Rightarrow> nat \<Rightarrow> nat \<Rightarrow>
    state \<Rightarrow> error option \<times> state" where
  "refresh_batches sf positions_src now sats_to_update batch_size i s =
     (if batch_size = 0 \<or> length sats_to_update \<le> i then (None, s)
      else
        (let batch = take batch_size (drop i sats_to_update);
             (results, s1) = gather_positions sf positions_src now s batch
         in case apply_results s1 results of
              (Some e, s2) \<Rightarrow> (Some e, s2)
            | (None, s2) \<Rightarrow>
                refresh_batches sf positions_src now sats_to_update batch_size (i + batch_size) s2))"
  by pat_completeness auto
termination
  by (relation "measure (\<lambda>(sf, positions_src, now, sats_to_update, batch_size, i, s).
        length sats_to_update - i)") auto

declare refresh_batches.simps [simp del]

text \<open>
  One pass of \<^verbatim>\<open>positions_loop\<close>: the ids are read from the catalog, at most
  \<^verbatim>\<open>max_fetch = 10000\<close> of them are refreshed in batches of \<^verbatim>\<open>batch_size = 50\<close>.
\<close>

definition positions_pass ::
  "(string \<Rightarrow> real option) \<Rightarrow> (int \<Rightarrow> pos_response option) \<Rightarrow> real \<Rightarrow> state \<Rightarrow> state" where
  "positions_pass sf positions_src now s =
     (let sats = map fst (tracked s);
          sats_to_update = take 10000 sats
      in snd (refresh_batches sf positions_src now sats_to_update 50 0 s))"

section \<open>Snapshot payload and broadcast (main.py)\<close>

definition PROXIMITY_THRESHOLD_KM :: real where
  "PROXIMITY_THRESHOLD_KM = 5"

text \<open>
  The payload dictionary built by \<^verbatim>\<open>broadcast_snapshot\<close> and by \<^verbatim>\<open>api_snapshot\<close>:
  \<^verbatim>\<open>ts\<close>, \<^verbatim>\<open>sats\<close> (the list of entry objects, held by reference), \<^verbatim>\<open>counts\<close> with its
  keys \<^verbatim>\<open>total\<close>, \<^verbatim>\<open>leo\<close>, \<^verbatim>\<open>geo\<close>, \<^verbatim>\<open>alerts\<close>, and \<^verbatim>\<open>alerts\<close>, a list of
  \<open>(a, b, dist_km)\<close>.
\<close>

record counts =
  n_total :: nat
  n_leo :: nat
  n_geo :: nat
  n_alerts :: nat

record payload =
  p_ts :: string
  p_sats :: "addr list"
  p_counts :: counts
  p_alerts :: "(pyval \<times> pyval \<times> real) list"

text \<open>
  The construction of the payload, the same code in both functions. The timestamp string
  \<open>ts\<close> comes from the clock. An exception of the scan is an exception of the construction.
\<close>

definition build_payload :: "(string \<Rightarrow> real option) \<Rightarrow> string \<Rightarrow> state \<Rightarrow> error + payload" where
  "build_payload sf ts s =
     (let sats = snapshot s;
          objects = deref s sats
      in ebind (find_close_pairs sf objects PROXIMITY_THRESHOLD_KM) (\<lambda>pairs.
           let alert_pairs = map (\<lambda>(x, y, d). (dget x ''satname'', dget y ''satname'', d)) pairs
           in Inr \<lparr>p_ts = ts,
                   p_sats = sats,
                   p_counts =
                     \<lparr>n_total = length sats,
                      n_leo = length (filter (\<lambda>obj. dget obj ''category'' = PStr ''LEO'') objects),
                      n_geo = length (filter (\<lambda>obj. dget obj ''category'' = PStr ''GEO'') objects),
                      n_alerts = length alert_pairs\<rparr>,
                   p_alerts = alert_pairs\<rparr>))"

text \<open>
  The loop \<^verbatim>\<open>for ws in set(clients)\<close> with its \<^verbatim>\<open>try\<close>/\<^verbatim>\<open>except\<close> around each send.
  \<open>send ws payload\<close> tells whether \<^verbatim>\<open>ws.send_json\<close> delivers the payload (\<open>True\<close>) or raises
  (\<open>False\<close>). The result is the list of deliveries made and the list \<^verbatim>\<open>dead\<close>.
\<close>

fun send_all :: "('ws \<Rightarrow> payload \<Rightarrow> bool) \<Rightarrow> payload \<Rightarrow> 'ws list \<Rightarrow>
    ('ws \<times> payload) list \<times> 'ws list" where
  "send_all send payload [] = ([], [])"
| "send_all send payload (ws # rest) =
     (let (delivered, dead) = send_all send payload rest
      in if send ws payload then ((ws, payload) # delivered, dead)
         else (delivered, ws # dead))"

text \<open>The loop \<^verbatim>\<open>for d in dead: clients.discard(d)\<close>.\<close>

fun discard_all :: "'ws set \<Rightarrow> 'ws list \<Rightarrow> 'ws set" where
  "discard_all clients [] = clients"
| "discard_all clients (d # dead) = discard_all (clients - {d}) dead"

text \<open>
  One tick of \<^verbatim>\<open>broadcast_snapshot\<close>. \<open>order\<close> is the order in which the copy
  \<^verbatim>\<open>set(clients)\<close> is iterated. An exception while the payload is built is caught by the
  outer handler: nothing is sent in that tick. The result is the deliveries made and the
  subscriber set after the tick.
\<close>

definition broadcast_tick ::
  "(string \<Rightarrow> real option) \<Rightarrow> string \<Rightarrow> ('ws \<Rightarrow> payload \<Rightarrow> bool) \<Rightarrow> 'ws list \<Rightarrow> state \<Rightarrow>
    'ws set \<Rightarrow> ('ws \<times> payload) list \<times> 'ws set" where
  "broadcast_tick sf ts send order s clients =
     (case build_payload sf ts s of
        Inl e \<Rightarrow> ([], clients)
      | Inr payload \<Rightarrow>
          (let (delivered, dead) = send_all send payload order
           in (delivered, discard_all clients dead)))"

section \<open>The demo simulator step (main.py)\<close>

text \<open>\<^verbatim>\<open>x or y\<close> on values, and the float remainder \<^verbatim>\<open>x % m\<close> for a positive \<open>m\<close>.\<close>

definition py_or :: "pyval \<Rightarrow> pyval \<Rightarrow> pyval" where
  "py_or x y = (if truthy x then x else y)"

definition py_fmod :: "real \<Rightarrow> real \<Rightarrow> real" where
  "py_fmod x m = x - m * of_int \<lfloor>x / m\<rfloor>"

text \<open>
  The body of the loop of \<^verbatim>\<open>_demo_step\<close> for one entry: the new content of the entry
  object, or the exception of a conversion (raised before anything is assigned).
\<close>

definition demo_entry :: "(string \<Rightarrow> real option) \<Rightarrow> real \<Rightarrow> pydict \<Rightarrow> error + pydict" where
  "demo_entry sf now e =
     (let omega_geo = 360 / (24 * 3600);
          omega_leo = 360 / (95 * 60)
      in ebind (py_float sf (py_or (dget e ''last_update'') (PFloat now))) (\<lambda>last.
           let dt = max 0 (now - last) in
           if dget e ''category'' = PStr ''GEO'' then
             ebind (py_float sf (py_or (dget e ''satlng'') (PFloat 0))) (\<lambda>lng.
               Inr (e(''satlng'' \<mapsto> PFloat (py_fmod (lng + omega_geo * dt) 360),
                      ''satlat'' \<mapsto> PFloat 0,
                      ''last_update'' \<mapsto> PFloat now)))
           else
             ebind (py_float sf (py_or (dget e ''satlng'') (PFloat 0))) (\<lambda>lng.
               let t = py_fmod now (95 * 60) in
               Inr (e(''satlng'' \<mapsto> PFloat (py_fmod (lng + omega_leo * dt) 360),
                      ''satlat'' \<mapsto> PFloat (30 * sin (2 * pi * t / (95 * 60))),
                      ''last_update'' \<mapsto> PFloat now)))))"

text \<open>
  The loop \<^verbatim>\<open>for s in tracked.values()\<close>: every entry object is changed in place. An
  exception ends the step and leaves the entries before it changed.
\<close>

fun demo_step_loop :: "(string \<Rightarrow> real option) \<Rightarrow> real \<Rightarrow> state \<Rightarrow> addr list \<Rightarrow>
    error option \<times> state" where
  "demo_step_loop sf now s [] = (None, s)"
| "demo_step_loop sf now s (a # refs) =
     (case demo_entry sf now (heap s ! a) of
        Inl e \<Rightarrow> (Some e, s)
      | Inr e' \<Rightarrow> demo_step_loop sf now (s\<lparr>heap := (heap s)[a := e']\<rparr>) refs)"

definition demo_step :: "(string \<Rightarrow> real option) \<Rightarrow> real \<Rightarrow> state \<Rightarrow> error option \<times> state" where
  "demo_step sf now s = demo_step_loop sf now s (map snd (tracked s))"

text \<open>
  The invariant of the catalog: the store is well formed and every entry object is a tracked
  object in the sense of the scanner.
\<close>

definition catalog_invariant :: "state \<Rightarrow> bool" where
  "catalog_invariant s \<longleftrightarrow> wf_state s \<and> list_all tracked_object (heap s)"

text \<open>
  The result the scanner is specified to have, in the words of its contract. \<open>close_pair\<close> is
  what a pair of objects contributes: the triple of the two objects and their distance when
  both have their coordinates and the distance is within the threshold, and nothing
  otherwise. \<open>pairs_in_order\<close> lists the contributions of all index pairs \<open>i < j\<close> in the
  order of the input: by \<open>i\<close>, then by \<open>j\<close>.
\<close>

definition close_pair ::
  "(string \<Rightarrow> real option) \<Rightarrow> real \<Rightarrow> pydict \<Rightarrow> pydict \<Rightarrow> (pydict \<times> pydict \<times> real) list" where
  "close_pair sf threshold_km a b =
     (if coords_missing a \<or> coords_missing b then []
      else case pair_distance sf a b of
             Inl e \<Rightarrow> []
           | Inr d \<Rightarrow> if d \<le> threshold_km then [(a, b, d)] else [])"

definition pairs_in_order ::
  "(string \<Rightarrow> real option) \<Rightarrow> pydict list \<Rightarrow> real \<Rightarrow> (pydict \<times> pydict \<times> real) list" where
  "pairs_in_order sf sat_list threshold_km =
     concat (map (\<lambda>i.
       concat (map (\<lambda>j. close_pair sf threshold_km (sat_list ! i) (sat_list ! j))
                 [Suc i..<length sat_list]))
       [0..<length sat_list])"

section \<open>Properties of the geometry\<close>

lemma ebind_simps [simp]:
  "ebind (Inl e) f = Inl e"
  "ebind (Inr v) f = f v"
  by (simp_all add: ebind_def)

lemma as_real_num: "is_num v \<Longrightarrow> \<exists>x. as_real v = Inr x"
  by (cases v) (simp_all add: as_real_def)

lemma radians_num: "is_num v \<Longrightarrow> \<exists>x. radians v = Inr x"
proof -
  assume "is_num v"
  then obtain y where "as_real v = Inr y"
    using as_real_num by blast
  then have "radians v = Inr (y * pi / 180)"
    unfolding radians_def by (simp only: ebind_simps)
  then show ?thesis by blast
qed

lemma to_ecef_num:
  "is_num lat \<Longrightarrow> is_num lon \<Longrightarrow> \<exists>p. to_ecef lat lon alt = Inr p"
proof -
  assume "is_num lat" "is_num lon"
  then obtain phi lam where "radians lat = Inr phi" "radians lon = Inr lam"
    using radians_num by blast
  then have "to_ecef lat lon alt = Inr ((6371 + alt) * cos phi * cos lam,
      (6371 + alt) * cos phi * sin lam, (6371 + alt) * sin phi)"
    by (simp add: to_ecef_def Let_def)
  then show ?thesis by blast
qed

text \<open>
  Claim C3. For valid geodetic points (numeric latitude and longitude, any altitudes) the
  distance is computed without an exception, is symmetric in its two points, and the distance
  from a point to itself is 0.
\<close>

theorem distance_symmetric_and_zero:
  assumes "is_num lat1" "is_num lon1" "is_num lat2" "is_num lon2"
  shows "euclidean_km_from_latlonalt lat1 lon1 alt1 lat2 lon2 alt2
           = euclidean_km_from_latlonalt lat2 lon2 alt2 lat1 lon1 alt1
         \<and> (\<exists>d. euclidean_km_from_latlonalt lat1 lon1 alt1 lat2 lon2 alt2 = Inr d)
         \<and> euclidean_km_from_latlonalt lat1 lon1 alt1 lat1 lon1 alt1 = Inr 0"
proof -
  obtain x1 y1 z1 where p1: "to_ecef lat1 lon1 alt1 = Inr (x1, y1, z1)"
    using to_ecef_num [OF assms(1,2), of alt1] by (metis prod_cases3)
  obtain x2 y2 z2 where p2: "to_ecef lat2 lon2 alt2 = Inr (x2, y2, z2)"
    using to_ecef_num [OF assms(3,4), of alt2] by (metis prod_cases3)
  have "(x1 - x2)\<^sup>2 = (x2 - x1)\<^sup>2" "(y1 - y2)\<^sup>2 = (y2 - y1)\<^sup>2" "(z1 - z2)\<^sup>2 = (z2 - z1)\<^sup>2"
    by (simp_all add: power2_commute)
  then show ?thesis
    by (simp add: euclidean_km_from_latlonalt_def p1 p2)
qed

theorem distance_symmetric_and_zero_witness:
  "euclidean_km_from_latlonalt (PInt 0) (PFloat 0) 550 (PFloat 0) (PInt 90) 550
     = euclidean_km_from_latlonalt (PFloat 0) (PInt 90) 550 (PInt 0) (PFloat 0) 550
   \<and> euclidean_km_from_latlonalt (PInt 0) (PFloat 0) 550 (PInt 0) (PFloat 0) 550 = Inr 0"
  using distance_symmetric_and_zero [of "PInt 0" "PFloat 0" "PFloat 0" "PInt 90" 550 550]
  by simp

section \<open>Properties of the proximity scan\<close>

lemma py_float_num: "is_num v \<Longrightarrow> \<exists>x. py_float sf v = Inr x"
  by (cases v) (simp_all add: py_float_def)

lemma euclid_num:
  assumes "is_num lat1" "is_num lon1" "is_num lat2" "is_num lon2"
  shows "\<exists>d. euclidean_km_from_latlonalt lat1 lon1 alt1 lat2 lon2 alt2 = Inr d"
proof -
  obtain p1 where p1: "to_ecef lat1 lon1 alt1 = Inr p1"
    using to_ecef_num [OF assms(1,2)] by blast
  obtain p2 where p2: "to_ecef lat2 lon2 alt2 = Inr p2"
    using to_ecef_num [OF assms(3,4)] by blast
  show ?thesis
    by (cases p1; cases p2) (simp add: euclidean_km_from_latlonalt_def p1 p2)
qed

lemma dsub_present: "dget a k \<noteq> PNone \<Longrightarrow> dsub a k = Inr (dget a k)"
  by (simp add: dget_def dsub_def split: option.splits)

lemma pair_distance_ok:
  assumes "tracked_object a" "tracked_object b" "\<not> coords_missing a" "\<not> coords_missing b"
  shows "\<exists>d. pair_distance sf a b = Inr d"
proof -
  from assms have n: "is_num (dget a ''satlat'')" "is_num (dget a ''satlng'')"
      "is_num (dget b ''satlat'')" "is_num (dget b ''satlng'')"
    and s: "dsub a ''satlat'' = Inr (dget a ''satlat'')" "dsub a ''satlng'' = Inr (dget a ''satlng'')"
      "dsub b ''satlat'' = Inr (dget b ''satlat'')" "dsub b ''satlng'' = Inr (dget b ''satlng'')"
    by (auto simp: tracked_object_def coords_missing_def dsub_present)
  obtain h1 where h1: "py_float sf (dget_default a ''satalt'' (PFloat 0)) = Inr h1"
    using assms(1) py_float_num unfolding tracked_object_def by blast
  obtain h2 where h2: "py_float sf (dget_default b ''satalt'' (PFloat 0)) = Inr h2"
    using assms(2) py_float_num unfolding tracked_object_def by blast
  show ?thesis
    using euclid_num [OF n, of h1 h2] by (simp add: pair_distance_def s h1 h2)
qed

lemma close_to_ok:
  assumes "tracked_object a" "\<not> coords_missing a" "\<forall>b\<in>set bs. tracked_object b"
  shows "\<exists>ps. close_to sf thr a bs = Inr ps \<and>
     (\<forall>x y d. (x, y, d) \<in> set ps \<longleftrightarrow>
        x = a \<and> y \<in> set bs \<and> \<not> coords_missing y \<and> pair_distance sf a y = Inr d \<and> d \<le> thr)"
  using assms(3)
proof (induction bs)
  case Nil
  then show ?case by simp
next
  case (Cons b bs)
  then obtain ps where ps: "close_to sf thr a bs = Inr ps"
    and mem: "\<And>x y d. (x, y, d) \<in> set ps \<longleftrightarrow>
        x = a \<and> y \<in> set bs \<and> \<not> coords_missing y \<and> pair_distance sf a y = Inr d \<and> d \<le> thr"
    by auto
  show ?case
  proof (cases "coords_missing b")
    case True
    then show ?thesis using ps mem by auto
  next
    case False
    then obtain d0 where d0: "pair_distance sf a b = Inr d0"
      using pair_distance_ok [OF assms(1) _ assms(2) False, of sf] Cons.prems by auto
    show ?thesis using False ps mem d0 by auto
  qed
qed

lemma index_pair_Cons:
  "(\<exists>i j. i < j \<and> j < length (x # rest) \<and> a = (x # rest) ! i \<and> b = (x # rest) ! j)
   \<longleftrightarrow> (a = x \<and> b \<in> set rest) \<or> (\<exists>i j. i < j \<and> j < length rest \<and> a = rest ! i \<and> b = rest ! j)"
  (is "?L \<longleftrightarrow> ?R")
proof
  assume ?L
  then obtain i j where ij: "i < j" "j < length (x # rest)" "a = (x # rest) ! i" "b = (x # rest) ! j"
    by blast
  then obtain j' where j': "j = Suc j'" by (cases j) auto
  show ?R
  proof (cases i)
    case 0
    then show ?thesis using ij j' by auto
  next
    case (Suc i')
    then have "i' < j' \<and> j' < length rest \<and> a = rest ! i' \<and> b = rest ! j'"
      using ij j' by auto
    then show ?thesis by blast
  qed
next
  assume ?R
  then show ?L
  proof
    assume "a = x \<and> b \<in> set rest"
    then obtain k where "k < length rest" "b = rest ! k" "a = x"
      by (auto simp: in_set_conv_nth)
    then have "0 < Suc k \<and> Suc k < length (x # rest) \<and> a = (x # rest) ! 0 \<and> b = (x # rest) ! Suc k"
      by simp
    then show ?L by blast
  next
    assume "\<exists>i j. i < j \<and> j < length rest \<and> a = rest ! i \<and> b = rest ! j"
    then obtain i j where "i < j" "j < length rest" "a = rest ! i" "b = rest ! j" by blast
    then have "Suc i < Suc j \<and> Suc j < length (x # rest) \<and> a = (x # rest) ! Suc i \<and> b = (x # rest) ! Suc j"
      by simp
    then show ?L by blast
  qed
qed

lemma find_close_pairs_members:
  assumes "\<forall>a\<in>set sats. tracked_object a"
  shows "\<exists>ps. find_close_pairs sf sats thr = Inr ps \<and>
     (\<forall>a b d. (a, b, d) \<in> set ps \<longleftrightarrow>
        (\<exists>i j. i < j \<and> j < length sats \<and> a = sats ! i \<and> b = sats ! j) \<and>
        \<not> coords_missing a \<and> \<not> coords_missing b \<and>
        pair_distance sf a b = Inr d \<and> d \<le> thr)"
  using assms
proof (induction sats)
  case Nil
  then show ?case by simp
next
  case (Cons x rest)
  then obtain ps where ps: "find_close_pairs sf rest thr = Inr ps"
    and mem: "\<And>a b d. (a, b, d) \<in> set ps \<longleftrightarrow>
        (\<exists>i j. i < j \<and> j < length rest \<and> a = rest ! i \<and> b = rest ! j) \<and>
        \<not> coords_missing a \<and> \<not> coords_missing b \<and>
        pair_distance sf a b = Inr d \<and> d \<le> thr"
    by auto
  show ?case
  proof (cases "coords_missing x")
    case True
    have "find_close_pairs sf (x # rest) thr = Inr ps"
      using True ps by simp
    moreover have "\<forall>a b d. (a, b, d) \<in> set ps \<longleftrightarrow>
        (\<exists>i j. i < j \<and> j < length (x # rest) \<and> a = (x # rest) ! i \<and> b = (x # rest) ! j) \<and>
        \<not> coords_missing a \<and> \<not> coords_missing b \<and>
        pair_distance sf a b = Inr d \<and> d \<le> thr"
      unfolding index_pair_Cons mem using True by blast
    ultimately show ?thesis by blast
  next
    case False
    obtain qs where qs: "close_to sf thr x rest = Inr qs"
      and memq: "\<And>a b d. (a, b, d) \<in> set qs \<longleftrightarrow>
        a = x \<and> b \<in> set rest \<and> \<not> coords_missing b \<and> pair_distance sf x b = Inr d \<and> d \<le> thr"
      using close_to_ok [of x rest sf thr] False Cons.prems by auto
    have "find_close_pairs sf (x # rest) thr = Inr (qs @ ps)"
      using False ps qs by simp
    moreover have "\<forall>a b d. (a, b, d) \<in> set (qs @ ps) \<longleftrightarrow>
        (\<exists>i j. i < j \<and> j < length (x # rest) \<and> a = (x # rest) ! i \<and> b = (x # rest) ! j) \<and>
        \<not> coords_missing a \<and> \<not> coords_missing b \<and>
        pair_distance sf a b = Inr d \<and> d \<le> thr"
      unfolding index_pair_Cons set_append Un_iff mem memq using False by blast
    ultimately show ?thesis by blast
  qed
qed

lemma close_pair_missing: "coords_missing a \<Longrightarrow> concat (map (close_pair sf thr a) bs) = []"
  by (induction bs) (simp_all add: close_pair_def)

lemma close_pair_missing_right: "coords_missing b \<Longrightarrow> close_pair sf thr a b = []"
  by (simp add: close_pair_def)

lemma close_pair_value:
  "\<not> coords_missing a \<Longrightarrow> \<not> coords_missing b \<Longrightarrow> pair_distance sf a b = Inr d \<Longrightarrow>
   close_pair sf thr a b = (if d \<le> thr then [(a, b, d)] else [])"
  by (simp add: close_pair_def)

lemma close_to_list:
  assumes "tracked_object a" "\<not> coords_missing a" "\<forall>b\<in>set bs. tracked_object b"
  shows "close_to sf thr a bs = Inr (concat (map (close_pair sf thr a) bs))"
  using assms(3)
proof (induction bs)
  case Nil
  then show ?case by simp
next
  case (Cons b bs)
  then have ih: "close_to sf thr a bs = Inr (concat (map (close_pair sf thr a) bs))"
    by simp
  show ?case
  proof (cases "coords_missing b")
    case True
    then show ?thesis using ih by (simp add: close_pair_missing_right)
  next
    case False
    then obtain d0 where d0: "pair_distance sf a b = Inr d0"
      using pair_distance_ok [OF assms(1) _ assms(2) False, of sf] Cons.prems by auto
    show ?thesis
      using False ih d0 by (simp add: close_pair_value [OF assms(2) False d0])
  qed
qed

lemma upt_0_Suc: "[0..<Suc n] = 0 # map Suc [0..<n]"
  by (simp add: upt_conv_Cons map_Suc_upt del: upt_Suc)

lemma find_close_pairs_suffixes:
  assumes "\<forall>a\<in>set sats. tracked_object a"
  shows "find_close_pairs sf sats thr =
     Inr (concat (map (\<lambda>i. concat (map (close_pair sf thr (sats ! i)) (drop (Suc i) sats)))
            [0..<length sats]))"
  using assms
proof (induction sats)
  case Nil
  then show ?case by simp
next
  case (Cons x rest)
  then have ih: "find_close_pairs sf rest thr =
     Inr (concat (map (\<lambda>i. concat (map (close_pair sf thr (rest ! i)) (drop (Suc i) rest)))
            [0..<length rest]))"
    by simp
  have split: "concat (map (\<lambda>i. concat (map (close_pair sf thr ((x # rest) ! i))
                  (drop (Suc i) (x # rest)))) [0..<length (x # rest)])
      = concat (map (close_pair sf thr x) rest)
        @ concat (map (\<lambda>i. concat (map (close_pair sf thr (rest ! i)) (drop (Suc i) rest)))
            [0..<length rest])"
    by (simp add: upt_0_Suc comp_def del: upt_Suc)
  show ?case
  proof (cases "coords_missing x")
    case True
    then show ?thesis
      unfolding split using ih by (simp add: close_pair_missing)
  next
    case False
    have "close_to sf thr x rest = Inr (concat (map (close_pair sf thr x) rest))"
      using close_to_list [of x rest sf thr] False Cons.prems by simp
    then show ?thesis
      unfolding split using False ih by simp
  qed
qed

lemma drop_map_nth: "drop i xs = map ((!) xs) [i..<length xs]"
  by (rule nth_equalityI) simp_all

lemma find_close_pairs_in_order:
  assumes "\<forall>a\<in>set sats. tracked_object a"
  shows "find_close_pairs sf sats thr = Inr (pairs_in_order sf sats thr)"
proof -
  have "map (close_pair sf thr (sats ! i)) (drop (Suc i) sats)
      = map (\<lambda>j. close_pair sf thr (sats ! i) (sats ! j)) [Suc i..<length sats]" for i
    by (subst drop_map_nth) (simp add: comp_def)
  then show ?thesis
    using find_close_pairs_suffixes [OF assms, of sf thr] by (simp add: pairs_in_order_def)
qed

text \<open>
  Claim C1. On a list of tracked objects the scan returns normally, and its result is exactly
  the list of close pairs in the order of the input: for the index pairs \<open>i < j\<close>, by \<open>i\<close> and
  then by \<open>j\<close>, one triple for each pair of objects that both have latitude and longitude and
  whose computed distance is at most the threshold, and nothing else, so no pair is emitted
  twice or out of order. Accordingly a triple \<open>(a, b, d)\<close> is in the result exactly when
  \<open>a\<close> and \<open>b\<close> are the objects at two positions \<open>i < j\<close>, both have their coordinates, \<open>d\<close> is
  their computed distance and \<open>d \<le> threshold\<close>; and the distance of every pair of objects
  with coordinates is computed without an exception.
\<close>

theorem find_close_pairs_exact:
  assumes "\<forall>a\<in>set sats. tracked_object a"
  shows "find_close_pairs sf sats thr = Inr (pairs_in_order sf sats thr)
    \<and> (\<forall>a b d. (a, b, d) \<in> set (pairs_in_order sf sats thr) \<longleftrightarrow>
          (\<exists>i j. i < j \<and> j < length sats \<and> a = sats ! i \<and> b = sats ! j) \<and>
          \<not> coords_missing a \<and> \<not> coords_missing b \<and>
          pair_distance sf a b = Inr d \<and> d \<le> thr)
    \<and> (\<forall>i j. i < j \<and> j < length sats \<and>
          \<not> coords_missing (sats ! i) \<and> \<not> coords_missing (sats ! j) \<longrightarrow>
          (\<exists>d. pair_distance sf (sats ! i) (sats ! j) = Inr d))"
proof -
  have eq: "find_close_pairs sf sats thr = Inr (pairs_in_order sf sats thr)"
    using find_close_pairs_in_order [OF assms] .
  obtain ps where ps: "find_close_pairs sf sats thr = Inr ps"
    and mem: "\<forall>a b d. (a, b, d) \<in> set ps \<longleftrightarrow>
          (\<exists>i j. i < j \<and> j < length sats \<and> a = sats ! i \<and> b = sats ! j) \<and>
          \<not> coords_missing a \<and> \<not> coords_missing b \<and>
          pair_distance sf a b = Inr d \<and> d \<le> thr"
    using find_close_pairs_members [OF assms, of sf thr] by blast
  have "ps = pairs_in_order sf sats thr" using ps eq by simp
  then have mem': "\<forall>a b d. (a, b, d) \<in> set (pairs_in_order sf sats thr) \<longleftrightarrow>
          (\<exists>i j. i < j \<and> j < length sats \<and> a = sats ! i \<and> b = sats ! j) \<and>
          \<not> coords_missing a \<and> \<not> coords_missing b \<and>
          pair_distance sf a b = Inr d \<and> d \<le> thr"
    using mem by simp
  have ok: "\<forall>i j. i < j \<and> j < length sats \<and>
          \<not> coords_missing (sats ! i) \<and> \<not> coords_missing (sats ! j) \<longrightarrow>
          (\<exists>d. pair_distance sf (sats ! i) (sats ! j) = Inr d)"
  proof (intro allI impI)
    fix i j
    assume h: "i < j \<and> j < length sats \<and>
          \<not> coords_missing (sats ! i) \<and> \<not> coords_missing (sats ! j)"
    then have "tracked_object (sats ! i)" "tracked_object (sats ! j)"
      using assms by simp_all
    then show "\<exists>d. pair_distance sf (sats ! i) (sats ! j) = Inr d"
      using pair_distance_ok h by blast
  qed
  show ?thesis using eq mem' ok by (intro conjI)
qed

theorem find_close_pairs_exact_witness:
  "tracked_object [''satlat'' \<mapsto> PFloat 0, ''satlng'' \<mapsto> PFloat 0, ''satalt'' \<mapsto> PFloat 550] \<and>
   tracked_object [''satname'' \<mapsto> PStr ''X''] \<and>
   tracked_object [''satlat'' \<mapsto> PInt 0, ''satlng'' \<mapsto> PInt 0, ''satalt'' \<mapsto> PInt 550] \<and>
   find_close_pairs Map.empty
        [[''satlat'' \<mapsto> PFloat 0, ''satlng'' \<mapsto> PFloat 0, ''satalt'' \<mapsto> PFloat 550],
         [''satname'' \<mapsto> PStr ''X''],
         [''satlat'' \<mapsto> PInt 0, ''satlng'' \<mapsto> PInt 0, ''satalt'' \<mapsto> PInt 550]] 5
     = Inr [([''satlat'' \<mapsto> PFloat 0, ''satlng'' \<mapsto> PFloat 0, ''satalt'' \<mapsto> PFloat 550],
             [''satlat'' \<mapsto> PInt 0, ''satlng'' \<mapsto> PInt 0, ''satalt'' \<mapsto> PInt 550], 0)]"
proof -
  let ?o1 = "[''satlat'' \<mapsto> PFloat 0, ''satlng'' \<mapsto> PFloat 0, ''satalt'' \<mapsto> PFloat 550]"
  let ?o2 = "[''satname'' \<mapsto> PStr ''X'']"
  let ?o3 = "[''satlat'' \<mapsto> PInt 0, ''satlng'' \<mapsto> PInt 0, ''satalt'' \<mapsto> PInt 550]"
  have t: "tracked_object ?o1" "tracked_object ?o2" "tracked_object ?o3"
    by (simp_all add: tracked_object_def dget_def dget_default_def)
  then have "\<forall>a\<in>set [?o1, ?o2, ?o3]. tracked_object a"
    by simp
  from find_close_pairs_exact [OF this, of Map.empty 5]
  have r: "find_close_pairs Map.empty [?o1, ?o2, ?o3] 5
      = Inr (pairs_in_order Map.empty [?o1, ?o2, ?o3] 5)"
    by blast
  have m: "coords_missing ?o2" "\<not> coords_missing ?o1" "\<not> coords_missing ?o3"
    by (simp_all add: coords_missing_def dget_def)
  have d: "pair_distance Map.empty ?o1 ?o3 = Inr 0"
    by (simp add: pair_distance_def dsub_def dget_default_def py_float_def
        euclidean_km_from_latlonalt_def to_ecef_def radians_def as_real_def)
  have c: "close_pair Map.empty 5 ?o1 ?o2 = []" "close_pair Map.empty 5 ?o2 ?o3 = []"
    "close_pair Map.empty 5 ?o1 ?o3 = [(?o1, ?o3, 0)]"
    using m d by (simp_all add: close_pair_def)
  have "[0..<length [?o1, ?o2, ?o3]] = [0, 1, 2]" by (simp add: upt_rec)
  moreover have "[Suc 0..<length [?o1, ?o2, ?o3]] = [1, 2]"
    "[Suc 1..<length [?o1, ?o2, ?o3]] = [2]" "[Suc 2..<length [?o1, ?o2, ?o3]] = []"
    by (simp_all add: upt_rec)
  ultimately have "pairs_in_order Map.empty [?o1, ?o2, ?o3] 5 = [(?o1, ?o3, 0)]"
    unfolding pairs_in_order_def by (simp add: c)
  then show ?thesis using t r by simp
qed

section \<open>Properties of the catalog merge\<close>

lemma addr_of_lt: "wf_state s \<Longrightarrow> addr_of s i = Some a \<Longrightarrow> a < length (heap s)"
  unfolding wf_state_def addr_of_def list_all_iff
  by (auto dest!: map_of_SomeD)

lemma addr_of_setdefault_same:
  "addr_of (setdefault s i) i = Some (case addr_of s i of Some a \<Rightarrow> a | None \<Rightarrow> length (heap s))"
  by (cases "map_of (tracked s) i") (simp_all add: setdefault_def addr_of_def map_add_def)

lemma addr_of_setdefault_other:
  "j \<noteq> i \<Longrightarrow> addr_of (setdefault s i) j = addr_of s j"
  by (auto simp: setdefault_def addr_of_def map_add_def split: option.splits)

lemma wf_setdefault: "wf_state s \<Longrightarrow> wf_state (setdefault s i)"
  unfolding wf_state_def setdefault_def addr_of_def list_all_iff
  by (auto simp: map_of_eq_None_iff split: option.splits)

lemma wf_update_entry: "wf_state s \<Longrightarrow> update_entry s i u = Inr s' \<Longrightarrow> wf_state s'"
  unfolding wf_state_def update_entry_def
  by (auto split: option.splits)

lemma entry_setdefault_same:
  "wf_state s \<Longrightarrow> entry (setdefault s i) i = Some (case entry s i of Some e \<Rightarrow> e | None \<Rightarrow> Map.empty)"
proof (cases "addr_of s i")
  case None
  then have "addr_of (setdefault s i) i = Some (length (heap s))"
    using addr_of_setdefault_same [of s i] by simp
  moreover have "heap (setdefault s i) = heap s @ [Map.empty]"
    using None by (simp add: setdefault_def)
  ultimately show ?thesis using None by (simp add: entry_def)
next
  case (Some a)
  then show ?thesis by (simp add: entry_def setdefault_def)
qed

lemma update_entry_known:
  "addr_of s i = Some a \<Longrightarrow>
   update_entry s i u = Inr (s\<lparr>heap := (heap s)[a := (heap s ! a) ++ u]\<rparr>)"
  by (simp add: update_entry_def)

lemma entry_update_same:
  "wf_state s \<Longrightarrow> entry s i = Some e \<Longrightarrow>
   \<exists>s'. update_entry s i u = Inr s' \<and> entry s' i = Some (e ++ u) \<and> wf_state s'"
proof -
  assume wf: "wf_state s" and e: "entry s i = Some e"
  then obtain a where a: "addr_of s i = Some a" "heap s ! a = e"
    by (auto simp: entry_def)
  then have lt: "a < length (heap s)" using wf addr_of_lt by blast
  let ?s' = "s\<lparr>heap := (heap s)[a := (heap s ! a) ++ u]\<rparr>"
  have u: "update_entry s i u = Inr ?s'" using a by (simp add: update_entry_def)
  moreover have "entry ?s' i = Some (e ++ u)"
    using a lt by (simp add: entry_def addr_of_def)
  moreover have "wf_state ?s'" using wf_update_entry [OF wf u] .
  ultimately show ?thesis by blast
qed

lemma merge_sweep_entry:
  assumes "wf_state s"
  shows "\<exists>s'. merge_sweep s i u = Inr s' \<and> wf_state s' \<and>
     entry s' i = Some ((case entry s i of Some e \<Rightarrow> e | None \<Rightarrow> Map.empty) ++ u)"
  using entry_update_same [OF wf_setdefault [OF assms] entry_setdefault_same [OF assms], of i u]
  unfolding merge_sweep_def by blast

lemma merge_refresh_known:
  "entry s i = Some e \<Longrightarrow> merge_refresh s i u = merge_sweep s i u"
  by (auto simp: merge_refresh_def merge_sweep_def setdefault_def entry_def)

text \<open>
  Claim C2. Two merges on the same id whose field sets are disjoint (apart from the
  timestamp key \<^verbatim>\<open>last_update\<close>, which every update of the backend carries) both succeed,
  and leave an entry whose keys are the union of both field sets (with the keys it had before,
  if any), holding the values of the first update, the values of the second, and the second
  call's timestamp. The second merge may be either the sweep's or the refresh's. A merge on an
  unseen id creates an entry that is exactly the supplied fields.
\<close>

theorem merge_twice_union:
  assumes wf: "wf_state s"
    and disj: "dom u1 \<inter> dom u2 \<subseteq> {''last_update''}"
    and t2: "u2 ''last_update'' = Some t2"
  shows "\<exists>s1 s2 e.
      merge_sweep s satid u1 = Inr s1 \<and>
      merge_sweep s1 satid u2 = Inr s2 \<and> merge_refresh s1 satid u2 = Inr s2 \<and>
      entry s2 satid = Some e \<and>
      dom e = (case entry s satid of Some e0 \<Rightarrow> dom e0 | None \<Rightarrow> {}) \<union> dom u1 \<union> dom u2 \<and>
      (\<forall>k. k \<in> dom u1 \<and> k \<noteq> ''last_update'' \<longrightarrow> e k = u1 k) \<and>
      (\<forall>k. k \<in> dom u2 \<longrightarrow> e k = u2 k) \<and>
      e ''last_update'' = Some t2 \<and>
      (entry s satid = None \<longrightarrow> entry s1 satid = Some u1)"
proof -
  let ?e0 = "case entry s satid of Some e \<Rightarrow> e | None \<Rightarrow> Map.empty"
  obtain s1 where s1: "merge_sweep s satid u1 = Inr s1" "wf_state s1"
      "entry s1 satid = Some (?e0 ++ u1)"
    using merge_sweep_entry [OF wf] by blast
  obtain s2 where s2: "merge_sweep s1 satid u2 = Inr s2"
      "entry s2 satid = Some ((?e0 ++ u1) ++ u2)"
    using merge_sweep_entry [OF s1(2), of satid u2] s1(3) by auto
  have r: "merge_refresh s1 satid u2 = Inr s2"
    using merge_refresh_known [OF s1(3)] s2(1) by simp
  let ?e = "(?e0 ++ u1) ++ u2"
  have d: "dom ?e = (case entry s satid of Some e0 \<Rightarrow> dom e0 | None \<Rightarrow> {}) \<union> dom u1 \<union> dom u2"
    by (auto split: option.splits)
  have k1: "\<forall>k. k \<in> dom u1 \<and> k \<noteq> ''last_update'' \<longrightarrow> ?e k = u1 k"
  proof (intro allI impI)
    fix k assume k: "k \<in> dom u1 \<and> k \<noteq> ''last_update''"
    then have "k \<notin> dom u2" using disj by auto
    then show "?e k = u1 k" using k by (auto simp: map_add_def split: option.splits)
  qed
  have k2: "\<forall>k. k \<in> dom u2 \<longrightarrow> ?e k = u2 k"
    by (auto simp: map_add_def split: option.splits)
  have k3: "?e ''last_update'' = Some t2"
    using t2 by (simp add: map_add_def)
  have k4: "entry s satid = None \<longrightarrow> entry s1 satid = Some u1"
    using s1(3) by simp
  have "merge_sweep s satid u1 = Inr s1 \<and>
      merge_sweep s1 satid u2 = Inr s2 \<and> merge_refresh s1 satid u2 = Inr s2 \<and>
      entry s2 satid = Some ?e \<and>
      dom ?e = (case entry s satid of Some e0 \<Rightarrow> dom e0 | None \<Rightarrow> {}) \<union> dom u1 \<union> dom u2 \<and>
      (\<forall>k. k \<in> dom u1 \<and> k \<noteq> ''last_update'' \<longrightarrow> ?e k = u1 k) \<and>
      (\<forall>k. k \<in> dom u2 \<longrightarrow> ?e k = u2 k) \<and>
      ?e ''last_update'' = Some t2 \<and>
      (entry s satid = None \<longrightarrow> entry s1 satid = Some u1)"
    by (intro conjI; (rule s1(1) s2 r d k1 k2 k3 k4))
  then show ?thesis
    by - (rule exI [of _ s1], rule exI [of _ s2], rule exI, assumption)
qed

theorem merge_twice_union_witness:
  "wf_state \<lparr>heap = [], tracked = [], last_n2yo_error = PNone\<rparr> \<and>
   dom [''satname'' \<mapsto> PStr ''ISS'', ''last_update'' \<mapsto> PFloat 1]
     \<inter> dom [''satlat'' \<mapsto> PFloat 2, ''last_update'' \<mapsto> PFloat 5] \<subseteq> {''last_update''} \<and>
   [''satlat'' \<mapsto> PFloat 2, ''last_update'' \<mapsto> PFloat 5] ''last_update'' = Some (PFloat 5) \<and>
   (\<exists>s1 s2 e.
      merge_sweep \<lparr>heap = [], tracked = [], last_n2yo_error = PNone\<rparr> 25544
        [''satname'' \<mapsto> PStr ''ISS'', ''last_update'' \<mapsto> PFloat 1] = Inr s1 \<and>
      merge_sweep s1 25544 [''satlat'' \<mapsto> PFloat 2, ''last_update'' \<mapsto> PFloat 5] = Inr s2 \<and>
      entry s2 25544 = Some e \<and> e ''satname'' = Some (PStr ''ISS'') \<and>
      e ''satlat'' = Some (PFloat 2) \<and> e ''last_update'' = Some (PFloat 5))"
proof -
  let ?s = "\<lparr>heap = [], tracked = [], last_n2yo_error = PNone\<rparr>"
  let ?u1 = "[''satname'' \<mapsto> PStr ''ISS'', ''last_update'' \<mapsto> PFloat 1]"
  let ?u2 = "[''satlat'' \<mapsto> PFloat 2, ''last_update'' \<mapsto> PFloat 5]"
  have h1: "wf_state ?s" by (simp add: wf_state_def)
  have h2: "dom ?u1 \<inter> dom ?u2 \<subseteq> {''last_update''}" by simp
  have h3: "?u2 ''last_update'' = Some (PFloat 5)" by simp
  obtain s1 s2 e where m: "merge_sweep ?s 25544 ?u1 = Inr s1" "merge_sweep s1 25544 ?u2 = Inr s2"
      "entry s2 25544 = Some e"
    and k1: "\<forall>k. k \<in> dom ?u1 \<and> k \<noteq> ''last_update'' \<longrightarrow> e k = ?u1 k"
    and k2: "\<forall>k. k \<in> dom ?u2 \<longrightarrow> e k = ?u2 k"
    using merge_twice_union [OF h1 h2 h3, of 25544] by blast
  have "e ''satname'' = Some (PStr ''ISS'')" using k1 [rule_format, of "''satname''"] by simp
  moreover have "e ''satlat'' = Some (PFloat 2)" using k2 [rule_format, of "''satlat''"] by simp
  moreover have "e ''last_update'' = Some (PFloat 5)"
    using k2 [rule_format, of "''last_update''"] by simp
  ultimately show ?thesis using h1 h2 h3 m by blast
qed

section \<open>Properties of the sweep's fetch phase\<close>

lemma fetch_batches_seeds:
  "fetch_batches above_src ABOVE_SEEDS MAX_PARALLEL_REQUESTS 0 =
     ([Gather [(0, 0, 10), (0, 120, 10), (0, 240, 10), (45, 60, 10)],
       Gather [(0, 0, 0), (0, 120, 0), (0, 240, 0), (45, 60, 0)],
       Sleep (1 / 2),
       Gather [(45, 180, 10), (45, 300, 10)],
       Gather [(45, 180, 0), (45, 300, 0)]],
      map (fetch_geo above_src) ABOVE_SEEDS,
      map (fetch_all above_src) ABOVE_SEEDS)"
proof -
  have b8: "fetch_batches above_src ABOVE_SEEDS 4 8 = ([], [], [])"
    by (subst fetch_batches.simps) (simp add: ABOVE_SEEDS_def)
  have b4: "fetch_batches above_src ABOVE_SEEDS 4 4 =
     ([Gather [(45, 180, 10), (45, 300, 10)], Gather [(45, 180, 0), (45, 300, 0)]],
      map (fetch_geo above_src) [(45, 180), (45, 300)],
      map (fetch_all above_src) [(45, 180), (45, 300)])"
    by (subst fetch_batches.simps) (simp add: b8, simp add: ABOVE_SEEDS_def GEO_CATEGORY_def)
  show ?thesis
    unfolding MAX_PARALLEL_REQUESTS_def
    by (subst fetch_batches.simps) (simp add: b4, simp add: ABOVE_SEEDS_def GEO_CATEGORY_def)
qed

lemma tracker_pass_events:
  "fst (tracker_pass si sf above_src now s)
     = fst (fetch_batches above_src ABOVE_SEEDS MAX_PARALLEL_REQUESTS 0)"
  by (simp add: tracker_pass_def tracker_fetch_def MAX_PARALLEL_REQUESTS_def Let_def
      split: prod.splits option.splits)

text \<open>
  Claim C9. Whatever the source answers, a pass over the 6 seed regions with the cap of 4
  issues its fetches in two region groups: the GEO fetches of the first 4 regions together,
  then their unfiltered fetches together, a pause, then the same for the remaining 2 regions.
  Each gather is awaited as a whole before the next one starts, and none has more than
  4 requests in flight.
\<close>

theorem sweep_two_groups:
  "fst (tracker_pass si sf above_src now s) =
     [Gather [(0, 0, 10), (0, 120, 10), (0, 240, 10), (45, 60, 10)],
      Gather [(0, 0, 0), (0, 120, 0), (0, 240, 0), (45, 60, 0)],
      Sleep (1 / 2),
      Gather [(45, 180, 10), (45, 300, 10)],
      Gather [(45, 180, 0), (45, 300, 0)]]
   \<and> list_all (\<lambda>ev. in_flight ev \<le> MAX_PARALLEL_REQUESTS)
        (fst (tracker_pass si sf above_src now s))"
  by (simp add: tracker_pass_events fetch_batches_seeds)
     (simp add: MAX_PARALLEL_REQUESTS_def)

lemma tracker_pass_state:
  "snd (tracker_pass si sf above_src now s) =
     tracker_process si sf now (s\<lparr>last_n2yo_error := PNone\<rparr>)
       (map (fetch_geo above_src) ABOVE_SEEDS) (map (fetch_all above_src) ABOVE_SEEDS)"
  by (simp add: tracker_pass_def tracker_fetch_def fetch_batches_seeds MAX_PARALLEL_REQUESTS_def [symmetric])
     (simp add: MAX_PARALLEL_REQUESTS_def)

lemma rate_limit_break:
  "process_responses body s (RDict (PStr ''Rate limit exceeded'') records # rest)
     = (None, s\<lparr>last_n2yo_error := PStr ''Rate limit exceeded''\<rparr>)"
  by (simp add: str_lower_def lower_char_def rate_limited_def)

text \<open>
  Claim C5, evaluated on the code. In a pass where the source answers every request with the
  error message \<^verbatim>\<open>Rate limit exceeded\<close>, all 12 requests of the pass are still issued, in
  the same four gathers: the responses are only looked at after the whole fetch phase, and
  the \<^verbatim>\<open>break\<close> on the rate-limit message ends the processing of responses, not the
  fetching. The pass records the message as last error and leaves the catalog as it was.
\<close>

theorem rate_limit_does_not_stop_fetches:
  "map requests_of
     (fst (tracker_pass si sf (\<lambda>req. Some (RDict (PStr ''Rate limit exceeded'') [])) now s)) =
     [[(0, 0, 10), (0, 120, 10), (0, 240, 10), (45, 60, 10)],
      [(0, 0, 0), (0, 120, 0), (0, 240, 0), (45, 60, 0)],
      [],
      [(45, 180, 10), (45, 300, 10)],
      [(45, 180, 0), (45, 300, 0)]]
   \<and> snd (tracker_pass si sf (\<lambda>req. Some (RDict (PStr ''Rate limit exceeded'') [])) now s)
       = s\<lparr>last_n2yo_error := PStr ''Rate limit exceeded''\<rparr>"
proof -
  let ?src = "\<lambda>req :: request. Some (RDict (PStr ''Rate limit exceeded'') [])"
  have g: "map (fetch_geo ?src) ABOVE_SEEDS
      = RDict (PStr ''Rate limit exceeded'') [] # map (fetch_geo ?src) (tl ABOVE_SEEDS)"
    by (simp add: ABOVE_SEEDS_def fetch_geo_def)
  have a: "map (fetch_all ?src) ABOVE_SEEDS
      = RDict (PStr ''Rate limit exceeded'') [] # map (fetch_all ?src) (tl ABOVE_SEEDS)"
    by (simp add: ABOVE_SEEDS_def fetch_all_def)
  have "snd (tracker_pass si sf ?src now s) = s\<lparr>last_n2yo_error := PStr ''Rate limit exceeded''\<rparr>"
    unfolding tracker_pass_state tracker_process_def g a rate_limit_break by simp
  moreover have "map requests_of (fst (tracker_pass si sf ?src now s)) =
     [[(0, 0, 10), (0, 120, 10), (0, 240, 10), (45, 60, 10)],
      [(0, 0, 0), (0, 120, 0), (0, 240, 0), (45, 60, 0)],
      [],
      [(45, 180, 10), (45, 300, 10)],
      [(45, 180, 0), (45, 300, 0)]]"
    unfolding tracker_pass_events fetch_batches_seeds by simp
  ultimately show ?thesis by blast
qed

section \<open>Malformed records in a sweep\<close>

lemma for_items_append:
  "for_items body s (pre @ post) =
     (case for_items body s pre of
        (Some e, s1) \<Rightarrow> (Some e, s1)
      | (None, s1) \<Rightarrow> for_items body s1 post)"
  by (induction pre arbitrary: s) (auto split: prod.splits option.splits)

lemma geo_item_no_id:
  "item ''satid'' = None \<Longrightarrow> geo_item si sf now s item = (Some KeyError, s)"
  by (simp add: geo_item_def dsub_def)

lemma merge_sweep_total: "\<exists>s'. merge_sweep s satid updates = Inr s'"
  using addr_of_setdefault_same [of s satid]
  by (simp add: merge_sweep_def update_entry_def)

text \<open>
  Claim C4, as the code has it. A record without the id field is not skipped on its own:
  \<^verbatim>\<open>item["satid"]\<close> raises KeyError, which ends the loop over the records, keeping what
  the records before it have written. The exception is handled only by the handler around the
  whole processing of the pass, so when the record stands in the first GEO response, the state
  after the pass is the state reached just before that record: the records after it, the
  later GEO responses and all responses of the unfiltered fetch are left unmerged. The merge
  itself, \<^verbatim>\<open>setdefault\<close> followed by \<^verbatim>\<open>update\<close>, never fails.
\<close>

theorem malformed_record_ends_pass:
  assumes "item ''satid'' = None"
  shows "for_items (geo_item si sf now) s (pre @ item # post) =
           (case for_items (geo_item si sf now) s pre of
              (Some e, s1) \<Rightarrow> (Some e, s1)
            | (None, s1) \<Rightarrow> (Some KeyError, s1))
         \<and> tracker_process si sf now s (RDict PNone (pre @ item # post) # geo_rest) all_responses
             = snd (for_items (geo_item si sf now) s pre)
         \<and> (\<exists>s'. merge_sweep s satid updates = Inr s')"
proof -
  have 1: "for_items (geo_item si sf now) s (pre @ item # post) =
           (case for_items (geo_item si sf now) s pre of
              (Some e, s1) \<Rightarrow> (Some e, s1)
            | (None, s1) \<Rightarrow> (Some KeyError, s1))"
    using assms
    by (simp add: for_items_append geo_item_no_id split: prod.splits option.splits)
  have 2: "tracker_process si sf now s (RDict PNone (pre @ item # post) # geo_rest) all_responses
             = snd (for_items (geo_item si sf now) s pre)"
    unfolding tracker_process_def
    by (simp add: 1 split: prod.splits option.splits)
  show ?thesis using 1 2 merge_sweep_total by blast
qed

theorem malformed_record_ends_pass_witness:
  "[''satname'' \<mapsto> PStr ''A''] ''satid'' = None \<and>
   tracker_process Map.empty Map.empty 100 \<lparr>heap = [], tracked = [], last_n2yo_error = PNone\<rparr>
     [RDict PNone [[''satname'' \<mapsto> PStr ''A''], [''satid'' \<mapsto> PInt 5]], RDict PNone [[''satid'' \<mapsto> PInt 6]]]
     [RDict PNone [[''satid'' \<mapsto> PInt 7]]]
     = \<lparr>heap = [], tracked = [], last_n2yo_error = PNone\<rparr>"
  using malformed_record_ends_pass [of "[''satname'' \<mapsto> PStr ''A'']" Map.empty Map.empty 100
      "\<lparr>heap = [], tracked = [], last_n2yo_error = PNone\<rparr>" "[]" "[[''satid'' \<mapsto> PInt 5]]"
      "[RDict PNone [[''satid'' \<mapsto> PInt 6]]]" "[RDict PNone [[''satid'' \<mapsto> PInt 7]]]"]
  by simp

lemma fetch_geo_single:
  "map (fetch_geo [(0, 0, 10) \<mapsto> r]) ABOVE_SEEDS = r # replicate 5 (RDict PNone [])"
  by (simp add: ABOVE_SEEDS_def fetch_geo_def GEO_CATEGORY_def numeral_eq_Suc)

lemma fetch_all_single:
  "map (fetch_all [(0, 0, 10) \<mapsto> r]) ABOVE_SEEDS = replicate 6 (RDict PNone [])"
  by (simp add: ABOVE_SEEDS_def fetch_all_def numeral_eq_Suc)

lemma process_empty_responses:
  "process_responses body s (replicate n (RDict PNone [])) = (None, s)"
  by (induction n) simp_all

text \<open>
  The claim as stated fails: in a pass whose first GEO response holds a record without id
  followed by a well-formed record with id 5, the record 5 is not merged, although the same
  pass without the malformed record merges it.
\<close>

theorem malformed_record_counterexample:
  "entry (snd (tracker_pass Map.empty Map.empty
      [(0, 0, 10) \<mapsto> RDict PNone [[''satname'' \<mapsto> PStr ''A''],
                                     [''satid'' \<mapsto> PInt 5, ''satname'' \<mapsto> PStr ''B'']]]
      100 \<lparr>heap = [], tracked = [], last_n2yo_error = PNone\<rparr>)) 5 = None
   \<and> entry (snd (tracker_pass Map.empty Map.empty
      [(0, 0, 10) \<mapsto> RDict PNone [[''satid'' \<mapsto> PInt 5, ''satname'' \<mapsto> PStr ''B'']]]
      100 \<lparr>heap = [], tracked = [], last_n2yo_error = PNone\<rparr>)) 5
     = Some [''satid'' \<mapsto> PInt 5, ''satname'' \<mapsto> PStr ''B'', ''satlat'' \<mapsto> PNone,
             ''satlng'' \<mapsto> PNone, ''satalt'' \<mapsto> PFloat 0, ''category'' \<mapsto> PStr ''GEO'',
             ''last_update'' \<mapsto> PFloat 100]"
proof -
  let ?s = "\<lparr>heap = [], tracked = [], last_n2yo_error = PNone\<rparr>"
  let ?good = "[''satid'' \<mapsto> PInt 5, ''satname'' \<mapsto> PStr ''B'']"
  have bad: "geo_item Map.empty Map.empty 100 ?s [''satname'' \<mapsto> PStr ''A''] = (Some KeyError, ?s)"
    by (simp add: geo_item_no_id)
  have good: "geo_item Map.empty Map.empty 100 ?s ?good =
      (None, \<lparr>heap = [[''satid'' \<mapsto> PInt 5, ''satname'' \<mapsto> PStr ''B'', ''satlat'' \<mapsto> PNone,
             ''satlng'' \<mapsto> PNone, ''satalt'' \<mapsto> PFloat 0, ''category'' \<mapsto> PStr ''GEO'',
             ''last_update'' \<mapsto> PFloat 100]], tracked = [(5, 0)], last_n2yo_error = PNone\<rparr>)"
    by (simp add: geo_item_def dsub_def py_int_def setdefault_def addr_of_def geo_fields_def
        opt_float_def dget_def dget_default_def py_float_def update_entry_def)
  have 1: "snd (tracker_pass Map.empty Map.empty
      [(0, 0, 10) \<mapsto> RDict PNone [[''satname'' \<mapsto> PStr ''A''], ?good]] 100 ?s) = ?s"
    unfolding tracker_pass_state fetch_geo_single fetch_all_single tracker_process_def
    by (simp add: bad)
  have 2: "snd (tracker_pass Map.empty Map.empty [(0, 0, 10) \<mapsto> RDict PNone [?good]] 100 ?s) =
      \<lparr>heap = [[''satid'' \<mapsto> PInt 5, ''satname'' \<mapsto> PStr ''B'', ''satlat'' \<mapsto> PNone,
             ''satlng'' \<mapsto> PNone, ''satalt'' \<mapsto> PFloat 0, ''category'' \<mapsto> PStr ''GEO'',
             ''last_update'' \<mapsto> PFloat 100]], tracked = [(5, 0)], last_n2yo_error = PNone\<rparr>"
    unfolding tracker_pass_state fetch_geo_single fetch_all_single tracker_process_def
    by (simp add: good process_empty_responses)
  show ?thesis
    unfolding 1 2 by (simp add: entry_def addr_of_def)
qed

section \<open>Properties of the per-object refresh\<close>

lemma addr_distinct:
  assumes "wf_state s" "addr_of s i = Some a" "addr_of s j = Some b" "i \<noteq> j"
  shows "a \<noteq> b"
proof
  assume "a = b"
  have ia: "(i, a) \<in> set (tracked s)" and jb: "(j, b) \<in> set (tracked s)"
    using assms(2,3) by (auto simp: addr_of_def dest: map_of_SomeD)
  have "inj_on snd (set (tracked s))"
    using assms(1) by (simp add: wf_state_def distinct_map)
  then have "(i, a) = (j, b)"
    using ia jb \<open>a = b\<close> inj_onD [of snd "set (tracked s)" "(i, a)" "(j, b)"] by simp
  then show False using assms(4) by simp
qed

lemma entry_update_other:
  assumes "wf_state s" "update_entry s i u = Inr s'" "j \<noteq> i"
  shows "entry s' j = entry s j"
proof -
  obtain a where a: "addr_of s i = Some a" and s': "s' = s\<lparr>heap := (heap s)[a := (heap s ! a) ++ u]\<rparr>"
    using assms(2) by (auto simp: update_entry_def split: option.splits)
  show ?thesis
  proof (cases "addr_of s j")
    case None
    then show ?thesis by (simp add: entry_def s' addr_of_def)
  next
    case (Some b)
    then have "a \<noteq> b" using addr_distinct [OF assms(1) a Some] assms(3) by blast
    then show ?thesis using Some by (simp add: entry_def s' addr_of_def)
  qed
qed

lemma update_entry_tracked: "update_entry s i u = Inr s' \<Longrightarrow> tracked s' = tracked s"
  by (auto simp: update_entry_def split: option.splits)

lemma update_position_Some:
  "update_position sf positions_src now s satid = (Some (sid, updates), s1) \<Longrightarrow>
   sid = satid \<and> s1 = s \<and>
   (\<exists>err latest others. positions_src satid = Some (PosDict err (latest # others)) \<and>
      \<not> truthy err \<and> position_fields sf now latest = Inr updates)"
  unfolding update_position_def
  by (auto split: option.splits pos_response.splits if_splits list.splits sum.splits)

text \<open>
  Claim C7. When \<^verbatim>\<open>update_position\<close> yields an update for a tracked object, the update comes
  from the first reported position of a response without error: it carries exactly latitude,
  longitude and altitude converted from that position and the timestamp of the pass. Merging
  it succeeds and changes, in that object's entry, these four fields only: every other key
  (name, category, id, ...) keeps its value, no key is removed, and the entries of all other
  objects and the catalog's id list are unchanged.
\<close>

theorem refresh_updates_position_only:
  assumes wf: "wf_state s" and known: "entry s satid = Some e"
    and fetched: "update_position sf positions_src now s satid = (Some (sid, updates), s1)"
  shows "sid = satid \<and> s1 = s \<and>
    (\<exists>err latest others lat lng alt.
       positions_src satid = Some (PosDict err (latest # others)) \<and>
       opt_float sf (dget latest ''satlatitude'') = Inr lat \<and>
       opt_float sf (dget latest ''satlongitude'') = Inr lng \<and>
       py_float sf (dget_default latest ''sataltitude'' (PFloat 0)) = Inr alt \<and>
       updates = [''satlat'' \<mapsto> lat, ''satlng'' \<mapsto> lng, ''satalt'' \<mapsto> PFloat alt,
                  ''last_update'' \<mapsto> PFloat now]) \<and>
    (\<exists>s' e'. apply_results s1 [Some (sid, updates)] = (None, s') \<and>
       entry s' satid = Some e' \<and>
       e' ''satlat'' = updates ''satlat'' \<and> e' ''satlng'' = updates ''satlng'' \<and>
       e' ''satalt'' = updates ''satalt'' \<and> e' ''last_update'' = Some (PFloat now) \<and>
       (\<forall>k. k \<notin> {''satlat'', ''satlng'', ''satalt'', ''last_update''} \<longrightarrow> e' k = e k) \<and>
       dom e \<subseteq> dom e' \<and>
       (\<forall>other. other \<noteq> satid \<longrightarrow> entry s' other = entry s other) \<and>
       tracked s' = tracked s)"
proof -
  from update_position_Some [OF fetched]
  obtain err latest others where sid: "sid = satid" and s1: "s1 = s"
    and src: "positions_src satid = Some (PosDict err (latest # others))"
    and pf: "position_fields sf now latest = Inr updates"
    by blast
  from pf obtain lat lng alt where
    c: "opt_float sf (dget latest ''satlatitude'') = Inr lat"
       "opt_float sf (dget latest ''satlongitude'') = Inr lng"
       "py_float sf (dget_default latest ''sataltitude'' (PFloat 0)) = Inr alt"
    and u: "updates = [''satlat'' \<mapsto> lat, ''satlng'' \<mapsto> lng, ''satalt'' \<mapsto> PFloat alt,
                  ''last_update'' \<mapsto> PFloat now]"
    unfolding position_fields_def ebind_def by (auto split: sum.splits)
  have A: "\<exists>err latest others lat lng alt.
       positions_src satid = Some (PosDict err (latest # others)) \<and>
       opt_float sf (dget latest ''satlatitude'') = Inr lat \<and>
       opt_float sf (dget latest ''satlongitude'') = Inr lng \<and>
       py_float sf (dget_default latest ''sataltitude'' (PFloat 0)) = Inr alt \<and>
       updates = [''satlat'' \<mapsto> lat, ''satlng'' \<mapsto> lng, ''satalt'' \<mapsto> PFloat alt,
                  ''last_update'' \<mapsto> PFloat now]"
    using src c u by blast
  obtain s' where up: "update_entry s satid updates = Inr s'"
    and e': "entry s' satid = Some (e ++ updates)"
    using entry_update_same [OF wf known] by blast
  have known': "addr_of s satid \<noteq> None" using known by (auto simp: entry_def)
  have ap: "apply_results s1 [Some (sid, updates)] = (None, s')"
    using up known' by (simp add: sid s1 merge_refresh_def)
  let ?e' = "e ++ updates"
  have k: "?e' ''satlat'' = updates ''satlat''" "?e' ''satlng'' = updates ''satlng''"
    "?e' ''satalt'' = updates ''satalt''" "?e' ''last_update'' = Some (PFloat now)"
    by (simp_all add: u map_add_def)
  have fr: "\<forall>k. k \<notin> {''satlat'', ''satlng'', ''satalt'', ''last_update''} \<longrightarrow> ?e' k = e k"
    by (simp add: u map_add_def)
  have dm: "dom e \<subseteq> dom ?e'" by auto
  have ot: "\<forall>other. other \<noteq> satid \<longrightarrow> entry s' other = entry s other"
    using entry_update_other [OF wf up] by blast
  have tr: "tracked s' = tracked s" using update_entry_tracked [OF up] .
  have B: "apply_results s1 [Some (sid, updates)] = (None, s') \<and>
       entry s' satid = Some ?e' \<and>
       ?e' ''satlat'' = updates ''satlat'' \<and> ?e' ''satlng'' = updates ''satlng'' \<and>
       ?e' ''satalt'' = updates ''satalt'' \<and> ?e' ''last_update'' = Some (PFloat now) \<and>
       (\<forall>k. k \<notin> {''satlat'', ''satlng'', ''satalt'', ''last_update''} \<longrightarrow> ?e' k = e k) \<and>
       dom e \<subseteq> dom ?e' \<and>
       (\<forall>other. other \<noteq> satid \<longrightarrow> entry s' other = entry s other) \<and>
       tracked s' = tracked s"
    by (intro conjI; (rule ap e' k fr dm ot tr))
  have B': "\<exists>s' e'. apply_results s1 [Some (sid, updates)] = (None, s') \<and>
       entry s' satid = Some e' \<and>
       e' ''satlat'' = updates ''satlat'' \<and> e' ''satlng'' = updates ''satlng'' \<and>
       e' ''satalt'' = updates ''satalt'' \<and> e' ''last_update'' = Some (PFloat now) \<and>
       (\<forall>k. k \<notin> {''satlat'', ''satlng'', ''satalt'', ''last_update''} \<longrightarrow> e' k = e k) \<and>
       dom e \<subseteq> dom e' \<and>
       (\<forall>other. other \<noteq> satid \<longrightarrow> entry s' other = entry s other) \<and>
       tracked s' = tracked s"
    using B by - (rule exI [of _ s'], rule exI, assumption)
  show ?thesis using sid s1 A B' by (intro conjI)
qed

theorem refresh_updates_position_only_witness:
  "wf_state \<lparr>heap = [[''satid'' \<mapsto> PInt 25544, ''satname'' \<mapsto> PStr ''ISS'',
                         ''category'' \<mapsto> PStr ''LEO'', ''satlat'' \<mapsto> PNone]],
              tracked = [(25544, 0)], last_n2yo_error = PNone\<rparr> \<and>
   entry \<lparr>heap = [[''satid'' \<mapsto> PInt 25544, ''satname'' \<mapsto> PStr ''ISS'',
                      ''category'' \<mapsto> PStr ''LEO'', ''satlat'' \<mapsto> PNone]],
           tracked = [(25544, 0)], last_n2yo_error = PNone\<rparr> 25544
     = Some [''satid'' \<mapsto> PInt 25544, ''satname'' \<mapsto> PStr ''ISS'',
             ''category'' \<mapsto> PStr ''LEO'', ''satlat'' \<mapsto> PNone] \<and>
   update_position Map.empty
       [25544 \<mapsto> PosDict PNone [[''satlatitude'' \<mapsto> PFloat 10, ''satlongitude'' \<mapsto> PInt 20,
                                    ''sataltitude'' \<mapsto> PFloat 400]]]
       7
       \<lparr>heap = [[''satid'' \<mapsto> PInt 25544, ''satname'' \<mapsto> PStr ''ISS'',
                  ''category'' \<mapsto> PStr ''LEO'', ''satlat'' \<mapsto> PNone]],
        tracked = [(25544, 0)], last_n2yo_error = PNone\<rparr> 25544
     = (Some (25544, [''satlat'' \<mapsto> PFloat 10, ''satlng'' \<mapsto> PFloat 20, ''satalt'' \<mapsto> PFloat 400,
                      ''last_update'' \<mapsto> PFloat 7]),
        \<lparr>heap = [[''satid'' \<mapsto> PInt 25544, ''satname'' \<mapsto> PStr ''ISS'',
                  ''category'' \<mapsto> PStr ''LEO'', ''satlat'' \<mapsto> PNone]],
         tracked = [(25544, 0)], last_n2yo_error = PNone\<rparr>) \<and>
   (\<exists>s' e'.
      apply_results
        \<lparr>heap = [[''satid'' \<mapsto> PInt 25544, ''satname'' \<mapsto> PStr ''ISS'',
                   ''category'' \<mapsto> PStr ''LEO'', ''satlat'' \<mapsto> PNone]],
         tracked = [(25544, 0)], last_n2yo_error = PNone\<rparr>
        [Some (25544, [''satlat'' \<mapsto> PFloat 10, ''satlng'' \<mapsto> PFloat 20,
                       ''satalt'' \<mapsto> PFloat 400, ''last_update'' \<mapsto> PFloat 7])] = (None, s') \<and>
      entry s' 25544 = Some e' \<and>
      e' ''satname'' = Some (PStr ''ISS'') \<and> e' ''category'' = Some (PStr ''LEO'') \<and>
      e' ''satlat'' = Some (PFloat 10) \<and> e' ''last_update'' = Some (PFloat 7))"
proof -
  let ?e = "[''satid'' \<mapsto> PInt 25544, ''satname'' \<mapsto> PStr ''ISS'',
             ''category'' \<mapsto> PStr ''LEO'', ''satlat'' \<mapsto> PNone]"
  let ?s = "\<lparr>heap = [?e], tracked = [(25544, 0)], last_n2yo_error = PNone\<rparr>"
  let ?u = "[''satlat'' \<mapsto> PFloat 10, ''satlng'' \<mapsto> PFloat 20, ''satalt'' \<mapsto> PFloat 400,
             ''last_update'' \<mapsto> PFloat 7]"
  let ?src = "[25544 \<mapsto> PosDict PNone [[''satlatitude'' \<mapsto> PFloat 10, ''satlongitude'' \<mapsto> PInt 20,
                                    ''sataltitude'' \<mapsto> PFloat 400]]]"
  have h1: "wf_state ?s" by (simp add: wf_state_def)
  have h2: "entry ?s 25544 = Some ?e" by (simp add: entry_def addr_of_def)
  have h3: "update_position Map.empty ?src 7 ?s 25544 = (Some (25544, ?u), ?s)"
    by (simp add: update_position_def position_fields_def opt_float_def py_float_def dget_def
        dget_default_def)
  from refresh_updates_position_only [OF h1 h2 h3]
  obtain s' e' where r: "apply_results ?s [Some (25544, ?u)] = (None, s')" "entry s' 25544 = Some e'"
      "e' ''satlat'' = ?u ''satlat''" "e' ''last_update'' = Some (PFloat 7)"
    and fr: "\<forall>k. k \<notin> {''satlat'', ''satlng'', ''satalt'', ''last_update''} \<longrightarrow> e' k = ?e k"
    by blast
  have "e' ''satname'' = Some (PStr ''ISS'')" using fr [rule_format, of "''satname''"] by simp
  moreover have "e' ''category'' = Some (PStr ''LEO'')"
    using fr [rule_format, of "''category''"] by simp
  moreover have "e' ''satlat'' = Some (PFloat 10)" using r(3) by simp
  ultimately have "\<exists>s' e'. apply_results ?s [Some (25544, ?u)] = (None, s') \<and>
      entry s' 25544 = Some e' \<and>
      e' ''satname'' = Some (PStr ''ISS'') \<and> e' ''category'' = Some (PStr ''LEO'') \<and>
      e' ''satlat'' = Some (PFloat 10) \<and> e' ''last_update'' = Some (PFloat 7)"
    using r by blast
  then show ?thesis using h1 h2 h3 by (intro conjI)
qed

section \<open>Properties of the broadcast\<close>

lemma send_all_result:
  "send_all send payload order =
     (map (\<lambda>ws. (ws, payload)) (filter (\<lambda>ws. send ws payload) order),
      filter (\<lambda>ws. \<not> send ws payload) order)"
  by (induction order) (simp_all add: Let_def)

lemma discard_all_set: "discard_all clients dead = clients - set dead"
  by (induction dead arbitrary: clients) auto

text \<open>
  Claim C8. In a tick whose payload is built, the payload is delivered to every subscriber
  whose send succeeds, in iteration order, whatever happens to the sends of the others; and
  the subscriber set after the tick is the set before it without the subscribers whose send
  failed.
\<close>

theorem broadcast_isolates_failures:
  assumes "build_payload sf ts s = Inr payload" and "set order = clients"
  shows "broadcast_tick sf ts send order s clients =
           (map (\<lambda>ws. (ws, payload)) (filter (\<lambda>ws. send ws payload) order),
            {ws \<in> clients. send ws payload})"
  using assms
  by (auto simp: broadcast_tick_def send_all_result discard_all_set)

lemma build_payload_empty:
  "build_payload sf ts \<lparr>heap = [], tracked = [], last_n2yo_error = PNone\<rparr> =
     Inr \<lparr>p_ts = ts, p_sats = [],
          p_counts = \<lparr>n_total = 0, n_leo = 0, n_geo = 0, n_alerts = 0\<rparr>, p_alerts = []\<rparr>"
  by (simp add: build_payload_def snapshot_def deref_def)

theorem broadcast_isolates_failures_witness:
  "build_payload Map.empty ''t'' \<lparr>heap = [], tracked = [], last_n2yo_error = PNone\<rparr> =
     Inr \<lparr>p_ts = ''t'', p_sats = [],
          p_counts = \<lparr>n_total = 0, n_leo = 0, n_geo = 0, n_alerts = 0\<rparr>, p_alerts = []\<rparr> \<and>
   set [1, 2, 3 :: nat] = {1, 2, 3} \<and>
   broadcast_tick Map.empty ''t'' (\<lambda>ws p. ws \<noteq> 2) [1, 2, 3 :: nat]
       \<lparr>heap = [], tracked = [], last_n2yo_error = PNone\<rparr> {1, 2, 3} =
     ([(1, \<lparr>p_ts = ''t'', p_sats = [],
           p_counts = \<lparr>n_total = 0, n_leo = 0, n_geo = 0, n_alerts = 0\<rparr>, p_alerts = []\<rparr>),
       (3, \<lparr>p_ts = ''t'', p_sats = [],
           p_counts = \<lparr>n_total = 0, n_leo = 0, n_geo = 0, n_alerts = 0\<rparr>, p_alerts = []\<rparr>)],
      {1, 3})"
proof -
  let ?s = "\<lparr>heap = [], tracked = [], last_n2yo_error = PNone\<rparr>"
  let ?p = "\<lparr>p_ts = ''t'', p_sats = [],
          p_counts = \<lparr>n_total = 0, n_leo = 0, n_geo = 0, n_alerts = 0\<rparr>, p_alerts = []\<rparr>"
  have h1: "build_payload Map.empty ''t'' ?s = Inr ?p" by (rule build_payload_empty)
  have h2: "set [1, 2, 3 :: nat] = {1, 2, 3}" by simp
  have "{ws \<in> {1, 2, 3 :: nat}. ws \<noteq> 2} = {1, 3}" by auto
  then show ?thesis
    using h1 h2 broadcast_isolates_failures [OF h1 h2, of "\<lambda>ws p. ws \<noteq> 2"]
    by simp
qed

section \<open>Properties of the snapshot payload\<close>

lemma count_two_categories:
  "list_all (\<lambda>obj. dget obj ''category'' = PStr ''LEO'' \<or> dget obj ''category'' = PStr ''GEO'') objects
   \<Longrightarrow> length (filter (\<lambda>obj. dget obj ''category'' = PStr ''LEO'') objects)
       + length (filter (\<lambda>obj. dget obj ''category'' = PStr ''GEO'') objects) = length objects"
  by (induction objects) auto

text \<open>
  In every payload the total is the length of the object list and the alert count the length
  of the alert list; the two category counts add up to the total when every entry carries
  the category LEO or GEO.
\<close>

lemma payload_counts:
  assumes "build_payload sf ts s = Inr p"
  shows "n_total (p_counts p) = length (p_sats p)"
    and "n_alerts (p_counts p) = length (p_alerts p)"
    and "list_all (\<lambda>obj. dget obj ''category'' = PStr ''LEO'' \<or> dget obj ''category'' = PStr ''GEO'')
           (deref s (snapshot s))
         \<Longrightarrow> n_leo (p_counts p) + n_geo (p_counts p) = n_total (p_counts p)"
proof -
  obtain pairs where "find_close_pairs sf (deref s (snapshot s)) PROXIMITY_THRESHOLD_KM = Inr pairs"
    and p: "p = \<lparr>p_ts = ts, p_sats = snapshot s,
        p_counts = \<lparr>n_total = length (snapshot s),
          n_leo = length (filter (\<lambda>obj. dget obj ''category'' = PStr ''LEO'') (deref s (snapshot s))),
          n_geo = length (filter (\<lambda>obj. dget obj ''category'' = PStr ''GEO'') (deref s (snapshot s))),
          n_alerts = length (map (\<lambda>(x, y, d). (dget x ''satname'', dget y ''satname'', d)) pairs)\<rparr>,
        p_alerts = map (\<lambda>(x, y, d). (dget x ''satname'', dget y ''satname'', d)) pairs\<rparr>"
    using assms unfolding build_payload_def Let_def ebind_def
    by (auto split: sum.splits)
  show "n_total (p_counts p) = length (p_sats p)" by (simp add: p)
  show "n_alerts (p_counts p) = length (p_alerts p)" by (simp add: p)
  show "n_leo (p_counts p) + n_geo (p_counts p) = n_total (p_counts p)"
    if "list_all (\<lambda>obj. dget obj ''category'' = PStr ''LEO'' \<or> dget obj ''category'' = PStr ''GEO'')
           (deref s (snapshot s))"
    using count_two_categories [OF that] by (simp add: p deref_def)
qed

lemma geo_item_null_altitude:
  "geo_item Map.empty Map.empty 100 \<lparr>heap = [], tracked = [], last_n2yo_error = PNone\<rparr>
     [''satid'' \<mapsto> PInt 5, ''satname'' \<mapsto> PStr ''X'', ''satalt'' \<mapsto> PNone]
   = (Some TypeError, \<lparr>heap = [Map.empty], tracked = [(5, 0)], last_n2yo_error = PNone\<rparr>)"
  by (simp add: geo_item_def dsub_def py_int_def setdefault_def addr_of_def geo_fields_def
      opt_float_def dget_def dget_default_def py_float_def)

text \<open>
  Claim C10, evaluated on the code. A GEO record with id 5 whose altitude is JSON
  \<^verbatim>\<open>null\<close>, received on an empty catalog: \<^verbatim>\<open>setdefault\<close> has created the entry for id 5
  before \<^verbatim>\<open>float(None)\<close> raises inside the argument of \<^verbatim>\<open>update\<close>, so the pass leaves an
  empty entry without category. The next payload counts 1 object in total, 0 LEO and 0 GEO.
\<close>

theorem empty_entry_breaks_counts:
  "snd (tracker_pass Map.empty Map.empty
      [(0, 0, 10) \<mapsto> RDict PNone [[''satid'' \<mapsto> PInt 5, ''satname'' \<mapsto> PStr ''X'',
                                      ''satalt'' \<mapsto> PNone]]]
      100 \<lparr>heap = [], tracked = [], last_n2yo_error = PNone\<rparr>)
     = \<lparr>heap = [Map.empty], tracked = [(5, 0)], last_n2yo_error = PNone\<rparr>
   \<and> build_payload Map.empty ''t'' \<lparr>heap = [Map.empty], tracked = [(5, 0)], last_n2yo_error = PNone\<rparr>
     = Inr \<lparr>p_ts = ''t'', p_sats = [0],
            p_counts = \<lparr>n_total = 1, n_leo = 0, n_geo = 0, n_alerts = 0\<rparr>,
            p_alerts = []\<rparr>"
proof -
  have 1: "snd (tracker_pass Map.empty Map.empty
      [(0, 0, 10) \<mapsto> RDict PNone [[''satid'' \<mapsto> PInt 5, ''satname'' \<mapsto> PStr ''X'',
                                      ''satalt'' \<mapsto> PNone]]]
      100 \<lparr>heap = [], tracked = [], last_n2yo_error = PNone\<rparr>)
     = \<lparr>heap = [Map.empty], tracked = [(5, 0)], last_n2yo_error = PNone\<rparr>"
    unfolding tracker_pass_state fetch_geo_single fetch_all_single tracker_process_def
    by (simp add: geo_item_null_altitude)
  have 2: "build_payload Map.empty ''t'' \<lparr>heap = [Map.empty], tracked = [(5, 0)], last_n2yo_error = PNone\<rparr>
     = Inr \<lparr>p_ts = ''t'', p_sats = [0],
            p_counts = \<lparr>n_total = 1, n_leo = 0, n_geo = 0, n_alerts = 0\<rparr>,
            p_alerts = []\<rparr>"
    by (simp add: build_payload_def snapshot_def deref_def coords_missing_def dget_def)
  show ?thesis using 1 2 by (rule conjI)
qed

section \<open>Properties of the catalog snapshot\<close>

lemma demo_step_loop_frame:
  assumes "demo_step_loop sf now s refs = (None, s')"
  shows "tracked s' = tracked s \<and> length (heap s') = length (heap s) \<and>
         (\<forall>a. a \<notin> set refs \<longrightarrow> heap s' ! a = heap s ! a)"
  using assms
proof (induction refs arbitrary: s)
  case Nil
  then show ?case by simp
next
  case (Cons a refs)
  then obtain e' where e': "demo_entry sf now (heap s ! a) = Inr e'"
    and rest: "demo_step_loop sf now (s\<lparr>heap := (heap s)[a := e']\<rparr>) refs = (None, s')"
    by (auto split: sum.splits)
  from Cons.IH [OF rest] show ?case by auto
qed

lemma demo_step_loop_entries:
  assumes "demo_step_loop sf now s refs = (None, s')" "distinct refs"
    "list_all (\<lambda>a. a < length (heap s)) refs"
  shows "map (\<lambda>a. demo_entry sf now (heap s ! a)) refs = map (\<lambda>a. Inr (heap s' ! a)) refs"
  using assms
proof (induction refs arbitrary: s)
  case Nil
  then show ?case by simp
next
  case (Cons a refs)
  then obtain e' where e': "demo_entry sf now (heap s ! a) = Inr e'"
    and rest: "demo_step_loop sf now (s\<lparr>heap := (heap s)[a := e']\<rparr>) refs = (None, s')"
    by (auto split: sum.splits)
  let ?s1 = "s\<lparr>heap := (heap s)[a := e']\<rparr>"
  have a: "a \<notin> set refs" "a < length (heap s)" using Cons.prems by auto
  have "heap s' ! a = heap ?s1 ! a"
    using demo_step_loop_frame [OF rest] a(1) by blast
  then have head: "heap s' ! a = e'" using a(2) by simp
  have "map (\<lambda>b. demo_entry sf now (heap ?s1 ! b)) refs = map (\<lambda>b. Inr (heap s' ! b)) refs"
    using Cons.IH [OF rest] Cons.prems by (simp add: list_all_iff)
  moreover have "map (\<lambda>b. demo_entry sf now (heap ?s1 ! b)) refs
      = map (\<lambda>b. demo_entry sf now (heap s ! b)) refs"
  proof -
    have "heap ?s1 ! b = heap s ! b" if "b \<in> set refs" for b
    proof -
      from that a(1) have "a \<noteq> b" by blast
      then show ?thesis by simp
    qed
    then show ?thesis by simp
  qed
  ultimately show ?case using e' head by simp
qed

lemma merge_sweep_heap:
  assumes "wf_state s" "merge_sweep s satid updates = Inr s'"
  shows "snapshot s' = snapshot s @ (case addr_of s satid of None \<Rightarrow> [length (heap s)] | Some a \<Rightarrow> [])"
    and "deref s' (snapshot s) =
           map (\<lambda>(i, a). if i = satid then heap s ! a ++ updates else heap s ! a) (tracked s)"
proof -
  show "snapshot s' = snapshot s @ (case addr_of s satid of None \<Rightarrow> [length (heap s)] | Some a \<Rightarrow> [])"
    using assms(2)
    by (auto simp: merge_sweep_def update_entry_def setdefault_def snapshot_def addr_of_def
        split: option.splits)
  show "deref s' (snapshot s) =
           map (\<lambda>(i, a). if i = satid then heap s ! a ++ updates else heap s ! a) (tracked s)"
  proof (cases "addr_of s satid")
    case None
    then have s': "heap s' = heap s @ [updates]"
      using assms(2) addr_of_setdefault_same [of s satid]
      by (auto simp: merge_sweep_def update_entry_def setdefault_def)
    have "\<forall>(i, a) \<in> set (tracked s). i \<noteq> satid \<and> a < length (heap s)"
      using None assms(1)
      by (force simp: addr_of_def wf_state_def list_all_iff map_of_eq_None_iff)
    then show ?thesis
      unfolding deref_def snapshot_def s' by (auto simp: nth_append)
  next
    case (Some b)
    then have s': "heap s' = (heap s)[b := heap s ! b ++ updates]"
      using assms(2) by (auto simp: merge_sweep_def update_entry_def setdefault_def)
    have "\<forall>(i, a) \<in> set (tracked s). a < length (heap s) \<and> (a = b \<longleftrightarrow> i = satid)"
    proof (clarify, intro conjI)
      fix i a assume ia: "(i, a) \<in> set (tracked s)"
      show "a < length (heap s)"
        using ia assms(1) by (auto simp: wf_state_def list_all_iff)
      have "addr_of s i = Some a"
        using ia assms(1) by (simp add: addr_of_def wf_state_def)
      then show "a = b \<longleftrightarrow> i = satid"
        using addr_distinct [OF assms(1) _ Some, of i a] Some by auto
    qed
    then show ?thesis
      unfolding deref_def snapshot_def s' by (auto simp: nth_list_update)
  qed
qed

lemma demo_step_shares:
  assumes "wf_state s" "demo_step sf now s = (None, s')"
  shows "snapshot s' = snapshot s"
    and "map Inr (deref s' (snapshot s)) = map (demo_entry sf now) (deref s (snapshot s))"
proof -
  have l: "demo_step_loop sf now s (map snd (tracked s)) = (None, s')"
    using assms(2) by (simp add: demo_step_def)
  show "snapshot s' = snapshot s"
    using demo_step_loop_frame [OF l] by (simp add: snapshot_def)
  have "map (\<lambda>a. demo_entry sf now (heap s ! a)) (map snd (tracked s))
      = map (\<lambda>a. Inr (heap s' ! a)) (map snd (tracked s))"
    using demo_step_loop_entries [OF l] assms(1) by (simp add: wf_state_def)
  then show "map Inr (deref s' (snapshot s)) = map (demo_entry sf now) (deref s (snapshot s))"
    by (simp add: deref_def snapshot_def comp_def)
qed

text \<open>
  Claim C6, as the code has it. \<^verbatim>\<open>list(tracked.values())\<close> is a new list of references to
  the entry objects, not of copies. The list is fixed once taken: a later merge leaves it a
  prefix of the catalog's values, and a demo step leaves the catalog's values as they are.
  But what is read through the snapshot afterwards is the live content: after a merge, the
  entry of the merged id with the update applied and every other entry as before; after a
  demo step that completes, every entry advanced by the step.
\<close>

theorem snapshot_shares_entries:
  assumes "wf_state s"
    and "merge_sweep s satid updates = Inr s1"
    and "demo_step sf now s = (None, s2)"
  shows "snapshot s1 = snapshot s @ (case addr_of s satid of None \<Rightarrow> [length (heap s)] | Some a \<Rightarrow> [])
    \<and> deref s1 (snapshot s) =
        map (\<lambda>(i, a). if i = satid then heap s ! a ++ updates else heap s ! a) (tracked s)
    \<and> snapshot s2 = snapshot s
    \<and> map Inr (deref s2 (snapshot s)) = map (demo_entry sf now) (deref s (snapshot s))"
  using merge_sweep_heap [OF assms(1,2)] demo_step_shares [OF assms(1,3)]
  by (intro conjI)

theorem snapshot_shares_entries_witness:
  "wf_state \<lparr>heap = [[''satname'' \<mapsto> PStr ''GEO-01'', ''category'' \<mapsto> PStr ''GEO'',
                       ''satlng'' \<mapsto> PFloat 10, ''last_update'' \<mapsto> PFloat 120]],
             tracked = [(900000, 0)], last_n2yo_error = PNone\<rparr> \<and>
   merge_sweep \<lparr>heap = [[''satname'' \<mapsto> PStr ''GEO-01'', ''category'' \<mapsto> PStr ''GEO'',
                          ''satlng'' \<mapsto> PFloat 10, ''last_update'' \<mapsto> PFloat 120]],
                tracked = [(900000, 0)], last_n2yo_error = PNone\<rparr>
       900000 [''satname'' \<mapsto> PStr ''RENAMED'']
     = Inr \<lparr>heap = [[''satname'' \<mapsto> PStr ''RENAMED'', ''category'' \<mapsto> PStr ''GEO'',
                      ''satlng'' \<mapsto> PFloat 10, ''last_update'' \<mapsto> PFloat 120]],
            tracked = [(900000, 0)], last_n2yo_error = PNone\<rparr> \<and>
   demo_step Map.empty 360
       \<lparr>heap = [[''satname'' \<mapsto> PStr ''GEO-01'', ''category'' \<mapsto> PStr ''GEO'',
                  ''satlng'' \<mapsto> PFloat 10, ''last_update'' \<mapsto> PFloat 120]],
        tracked = [(900000, 0)], last_n2yo_error = PNone\<rparr>
     = (None,
        \<lparr>heap = [[''satname'' \<mapsto> PStr ''GEO-01'', ''category'' \<mapsto> PStr ''GEO'',
                  ''satlng'' \<mapsto> PFloat 11, ''last_update'' \<mapsto> PFloat 360, ''satlat'' \<mapsto> PFloat 0]],
         tracked = [(900000, 0)], last_n2yo_error = PNone\<rparr>) \<and>
   deref \<lparr>heap = [[''satname'' \<mapsto> PStr ''RENAMED'', ''category'' \<mapsto> PStr ''GEO'',
                    ''satlng'' \<mapsto> PFloat 10, ''last_update'' \<mapsto> PFloat 120]],
          tracked = [(900000, 0)], last_n2yo_error = PNone\<rparr>
       (snapshot \<lparr>heap = [[''satname'' \<mapsto> PStr ''GEO-01'', ''category'' \<mapsto> PStr ''GEO'',
                            ''satlng'' \<mapsto> PFloat 10, ''last_update'' \<mapsto> PFloat 120]],
                  tracked = [(900000, 0)], last_n2yo_error = PNone\<rparr>)
     = [[''satname'' \<mapsto> PStr ''RENAMED'', ''category'' \<mapsto> PStr ''GEO'',
         ''satlng'' \<mapsto> PFloat 10, ''last_update'' \<mapsto> PFloat 120]]"
proof -
  let ?e = "[''satname'' \<mapsto> PStr ''GEO-01'', ''category'' \<mapsto> PStr ''GEO'',
             ''satlng'' \<mapsto> PFloat 10, ''last_update'' \<mapsto> PFloat 120]"
  let ?s = "\<lparr>heap = [?e], tracked = [(900000, 0)], last_n2yo_error = PNone\<rparr>"
  let ?s1 = "\<lparr>heap = [[''satname'' \<mapsto> PStr ''RENAMED'', ''category'' \<mapsto> PStr ''GEO'',
                      ''satlng'' \<mapsto> PFloat 10, ''last_update'' \<mapsto> PFloat 120]],
            tracked = [(900000, 0)], last_n2yo_error = PNone\<rparr>"
  let ?s2 = "\<lparr>heap = [[''satname'' \<mapsto> PStr ''GEO-01'', ''category'' \<mapsto> PStr ''GEO'',
                  ''satlng'' \<mapsto> PFloat 11, ''last_update'' \<mapsto> PFloat 360, ''satlat'' \<mapsto> PFloat 0]],
         tracked = [(900000, 0)], last_n2yo_error = PNone\<rparr>"
  have h1: "wf_state ?s" by (simp add: wf_state_def)
  have h2: "merge_sweep ?s 900000 [''satname'' \<mapsto> PStr ''RENAMED''] = Inr ?s1"
    by (simp add: merge_sweep_def setdefault_def update_entry_def addr_of_def fun_upd_twist)
  have e: "demo_entry Map.empty 360 ?e =
      Inr [''satname'' \<mapsto> PStr ''GEO-01'', ''category'' \<mapsto> PStr ''GEO'',
           ''satlng'' \<mapsto> PFloat 11, ''last_update'' \<mapsto> PFloat 360, ''satlat'' \<mapsto> PFloat 0]"
    by (simp add: demo_entry_def py_or_def py_float_def dget_def py_fmod_def Let_def fun_upd_twist)
  have h3: "demo_step Map.empty 360 ?s = (None, ?s2)"
    by (simp add: demo_step_def e)
  have "deref ?s1 (snapshot ?s) = [?e ++ [''satname'' \<mapsto> PStr ''RENAMED'']]"
    using snapshot_shares_entries [OF h1 h2 h3] by simp
  then have "deref ?s1 (snapshot ?s) = [[''satname'' \<mapsto> PStr ''RENAMED'', ''category'' \<mapsto> PStr ''GEO'',
         ''satlng'' \<mapsto> PFloat 10, ''last_update'' \<mapsto> PFloat 120]]"
    by (simp add: fun_upd_twist)
  then show ?thesis using h1 h2 h3 by (intro conjI)
qed

text \<open>
  The claim as stated fails: a snapshot taken of a catalog with one entry named ISS reads
  ZARYA after a merge that renames the entry.
\<close>

theorem snapshot_not_copies_counterexample:
  "merge_sweep \<lparr>heap = [[''satname'' \<mapsto> PStr ''ISS'']], tracked = [(25544, 0)],
                last_n2yo_error = PNone\<rparr> 25544 [''satname'' \<mapsto> PStr ''ZARYA'']
     = Inr \<lparr>heap = [[''satname'' \<mapsto> PStr ''ZARYA'']], tracked = [(25544, 0)],
            last_n2yo_error = PNone\<rparr>
   \<and> snapshot \<lparr>heap = [[''satname'' \<mapsto> PStr ''ISS'']], tracked = [(25544, 0)],
               last_n2yo_error = PNone\<rparr> = [0]
   \<and> deref \<lparr>heap = [[''satname'' \<mapsto> PStr ''ISS'']], tracked = [(25544, 0)],
            last_n2yo_error = PNone\<rparr> [0] = [[''satname'' \<mapsto> PStr ''ISS'']]
   \<and> deref \<lparr>heap = [[''satname'' \<mapsto> PStr ''ZARYA'']], tracked = [(25544, 0)],
            last_n2yo_error = PNone\<rparr> [0] = [[''satname'' \<mapsto> PStr ''ZARYA'']]
   \<and> [[''satname'' \<mapsto> PStr ''ZARYA'']] \<noteq> [[''satname'' \<mapsto> PStr ''ISS'']]"
proof -
  have "[''satname'' \<mapsto> PStr ''ZARYA''] ''satname'' \<noteq> [''satname'' \<mapsto> PStr ''ISS''] ''satname''"
    by simp
  then have "[''satname'' \<mapsto> PStr ''ZARYA''] \<noteq> [''satname'' \<mapsto> PStr ''ISS'']"
    by metis
  then show ?thesis
    by (simp add: merge_sweep_def setdefault_def update_entry_def addr_of_def snapshot_def deref_def)
qed

section \<open>The catalog invariant\<close>

text \<open>
  The hypotheses of the theorems above, a well-formed store and entries that are tracked
  objects, hold in every state reached from the empty catalog: every pass of the sweep, every
  pass of the refresh and every demo step keeps them, also when it is ended by an exception. In such a state the scan of a snapshot never
  raises, so the payload is always built.
\<close>

lemma tracked_object_empty: "tracked_object Map.empty"
  by (simp add: tracked_object_def dget_def dget_default_def)

lemma opt_float_value: "opt_float sf v = Inr w \<Longrightarrow> w = PNone \<or> is_num w"
  unfolding opt_float_def ebind_def by (auto split: if_splits sum.splits)

lemma tracked_object_position:
  assumes "lat = PNone \<or> is_num lat" "lng = PNone \<or> is_num lng"
    "u ''satlat'' = Some lat" "u ''satlng'' = Some lng" "u ''satalt'' = Some (PFloat alt)"
  shows "tracked_object (e ++ u)"
  using assms by (auto simp: tracked_object_def dget_def dget_default_def map_add_def)

lemma geo_fields_tracked_object:
  assumes "geo_fields sf now item satid = Inr u"
  shows "tracked_object (e ++ u)"
proof -
  from assms obtain lat lng alt where l: "opt_float sf (dget item ''satlat'') = Inr lat"
    and g: "opt_float sf (dget item ''satlng'') = Inr lng"
    and u: "u ''satlat'' = Some lat" "u ''satlng'' = Some lng" "u ''satalt'' = Some (PFloat alt)"
    unfolding geo_fields_def ebind_def by (auto split: sum.splits)
  show ?thesis
    by (rule tracked_object_position [OF opt_float_value [OF l] opt_float_value [OF g] u])
qed

lemma leo_fields_tracked_object:
  assumes "leo_fields sf now item satid alt = Inr u"
  shows "tracked_object (e ++ u)"
proof -
  from assms obtain lat lng where l: "opt_float sf (dget item ''satlat'') = Inr lat"
    and g: "opt_float sf (dget item ''satlng'') = Inr lng"
    and u: "u ''satlat'' = Some lat" "u ''satlng'' = Some lng" "u ''satalt'' = Some (PFloat alt)"
    unfolding leo_fields_def ebind_def by (auto split: sum.splits)
  show ?thesis
    by (rule tracked_object_position [OF opt_float_value [OF l] opt_float_value [OF g] u])
qed

lemma position_fields_tracked_object:
  assumes "position_fields sf now latest = Inr u"
  shows "tracked_object (e ++ u)"
proof -
  from assms obtain lat lng alt where l: "opt_float sf (dget latest ''satlatitude'') = Inr lat"
    and g: "opt_float sf (dget latest ''satlongitude'') = Inr lng"
    and u: "u ''satlat'' = Some lat" "u ''satlng'' = Some lng" "u ''satalt'' = Some (PFloat alt)"
    unfolding position_fields_def ebind_def by (auto split: sum.splits)
  show ?thesis
    by (rule tracked_object_position [OF opt_float_value [OF l] opt_float_value [OF g] u])
qed

lemma invariant_setdefault: "catalog_invariant s \<Longrightarrow> catalog_invariant (setdefault s i)"
  using wf_setdefault [of s i]
  by (auto simp: catalog_invariant_def setdefault_def tracked_object_empty split: option.splits)

lemma invariant_update_entry:
  assumes "catalog_invariant s" "update_entry s i u = Inr s'" "\<And>e. tracked_object (e ++ u)"
  shows "catalog_invariant s'"
proof -
  obtain a where s': "s' = s\<lparr>heap := (heap s)[a := (heap s ! a) ++ u]\<rparr>"
    using assms(2) by (auto simp: update_entry_def split: option.splits)
  have "list_all tracked_object (heap s')"
    using assms(1,3) unfolding s' catalog_invariant_def list_all_iff
    by (auto dest!: set_update_subset_insert [THEN subsetD])
  then show ?thesis
    using wf_update_entry [OF _ assms(2)] assms(1) by (simp add: catalog_invariant_def)
qed

lemma invariant_geo_item:
  "catalog_invariant s \<Longrightarrow> catalog_invariant (snd (geo_item si sf now s item))"
  unfolding geo_item_def Let_def
  by (auto split: sum.splits
      intro: invariant_setdefault invariant_update_entry [OF invariant_setdefault]
        geo_fields_tracked_object)

lemma invariant_leo_item:
  "catalog_invariant s \<Longrightarrow> catalog_invariant (snd (leo_item si sf now s item))"
  unfolding leo_item_def Let_def
  by (auto split: sum.splits
      intro: invariant_setdefault invariant_update_entry [OF invariant_setdefault]
        leo_fields_tracked_object)

lemma invariant_for_items:
  assumes "\<And>s item. catalog_invariant s \<Longrightarrow> catalog_invariant (snd (body s item))"
  shows "catalog_invariant s \<Longrightarrow> catalog_invariant (snd (for_items body s items))"
proof (induction items arbitrary: s)
  case Nil
  then show ?case by simp
next
  case (Cons item items)
  have "catalog_invariant (snd (body s item))" using assms Cons.prems .
  then show ?case
    using Cons.IH by (cases "body s item") (auto split: option.splits)
qed

lemma invariant_last_error:
  "catalog_invariant s \<Longrightarrow> catalog_invariant (s\<lparr>last_n2yo_error := v\<rparr>)"
  by (simp add: catalog_invariant_def wf_state_def)

lemma invariant_process_responses:
  assumes body: "\<And>s item. catalog_invariant s \<Longrightarrow> catalog_invariant (snd (body s item))"
  shows "catalog_invariant s \<Longrightarrow> catalog_invariant (snd (process_responses body s responses))"
proof (induction responses arbitrary: s)
  case Nil
  then show ?case by simp
next
  case (Cons resp rest)
  show ?case
  proof (cases resp)
    case RException
    then show ?thesis using Cons by simp
  next
    case ROther
    then show ?thesis using Cons by simp
  next
    case (RDict err records)
    let ?s1 = "if truthy err then s\<lparr>last_n2yo_error := err\<rparr> else s"
    have i1: "catalog_invariant ?s1"
      using Cons.prems by (simp add: invariant_last_error)
    have i2: "catalog_invariant (snd (for_items body ?s1 records))"
      using body i1 by (rule invariant_for_items)
    obtain r s2 where f: "for_items body ?s1 records = (r, s2)"
      by (cases "for_items body ?s1 records")
    then have i3: "catalog_invariant s2" using i2 by simp
    have i4: "catalog_invariant (snd (process_responses body s2 rest))"
      using Cons.IH [OF i3] .
    show ?thesis
    proof (cases "truthy err")
      case True
      then show ?thesis
        using RDict f i1 i3 i4
        by (cases "str_lower err"; cases r) (auto simp: Let_def)
    next
      case False
      then show ?thesis
        using RDict f i3 i4 by (cases r) auto
    qed
  qed
qed

lemma invariant_tracker_pass:
  assumes "catalog_invariant s"
  shows "catalog_invariant (snd (tracker_pass si sf above_src now s))"
proof -
  let ?s0 = "s\<lparr>last_n2yo_error := PNone\<rparr>"
  let ?g = "map (fetch_geo above_src) ABOVE_SEEDS"
  have g: "catalog_invariant (snd (process_responses (geo_item si sf now) ?s0 ?g))"
    using invariant_geo_item invariant_last_error [OF assms]
    by (rule invariant_process_responses)
  obtain r s1 where p: "process_responses (geo_item si sf now) ?s0 ?g = (r, s1)"
    by (cases "process_responses (geo_item si sf now) ?s0 ?g")
  then have s1: "catalog_invariant s1" using g by simp
  have "catalog_invariant (snd (process_responses (leo_item si sf now) s1
      (map (fetch_all above_src) ABOVE_SEEDS)))"
    using invariant_leo_item s1 by (rule invariant_process_responses)
  then show ?thesis
    unfolding tracker_pass_state tracker_process_def p using s1 by (cases r) auto
qed

lemma invariant_initial:
  "catalog_invariant \<lparr>heap = [], tracked = [], last_n2yo_error = PNone\<rparr>"
  by (simp add: catalog_invariant_def wf_state_def)

lemma find_close_pairs_returns:
  "list_all tracked_object objects \<Longrightarrow> \<exists>pairs. find_close_pairs sf objects thr = Inr pairs"
proof (induction objects)
  case Nil
  then show ?case by simp
next
  case (Cons a rest)
  then obtain ps where ps: "find_close_pairs sf rest thr = Inr ps" by auto
  show ?case
  proof (cases "coords_missing a")
    case True
    then show ?thesis using ps by simp
  next
    case False
    have "\<forall>b\<in>set rest. tracked_object b" using Cons.prems by (simp add: list_all_iff)
    then obtain qs where "close_to sf thr a rest = Inr qs"
      using close_to_ok [of a rest sf thr] False Cons.prems by auto
    then show ?thesis using False ps by simp
  qed
qed

lemma build_payload_returns:
  assumes "catalog_invariant s"
  shows "\<exists>p. build_payload sf ts s = Inr p"
proof -
  have "set (deref s (snapshot s)) \<subseteq> set (heap s)"
    using assms
    by (auto simp: catalog_invariant_def wf_state_def deref_def snapshot_def list_all_iff)
  then have "list_all tracked_object (deref s (snapshot s))"
    using assms by (auto simp: catalog_invariant_def list_all_iff)
  then obtain pairs where
    "find_close_pairs sf (deref s (snapshot s)) PROXIMITY_THRESHOLD_KM = Inr pairs"
    using find_close_pairs_returns by blast
  then show ?thesis by (simp add: build_payload_def Let_def)
qed

lemma invariant_update_position:
  assumes "catalog_invariant s" "update_position sf positions_src now s satid = (result, s1)"
  shows "catalog_invariant s1"
    and "result = Some (i, u) \<Longrightarrow> tracked_object (e ++ u)"
proof -
  show "catalog_invariant s1"
    using assms unfolding update_position_def
    by (auto split: option.splits pos_response.splits if_splits list.splits sum.splits
        intro: invariant_last_error)
  show "tracked_object (e ++ u)" if "result = Some (i, u)"
    using assms(2) that unfolding update_position_def
    by (auto split: option.splits pos_response.splits if_splits list.splits sum.splits
        intro: position_fields_tracked_object)
qed

lemma invariant_gather_positions:
  assumes "catalog_invariant s" "gather_positions sf positions_src now s batch = (results, s1)"
  shows "catalog_invariant s1 \<and> (\<forall>i u e. Some (i, u) \<in> set results \<longrightarrow> tracked_object (e ++ u))"
  using assms
proof (induction batch arbitrary: s results s1)
  case Nil
  then show ?case by simp
next
  case (Cons satid batch)
  obtain r s' where u: "update_position sf positions_src now s satid = (r, s')"
    by (cases "update_position sf positions_src now s satid")
  obtain rs s'' where g: "gather_positions sf positions_src now s' batch = (rs, s'')"
    by (cases "gather_positions sf positions_src now s' batch")
  have res: "results = r # rs" "s1 = s''"
    using Cons.prems(2) u g by simp_all
  have i': "catalog_invariant s'"
    using invariant_update_position(1) [OF Cons.prems(1) u] .
  have "catalog_invariant s'' \<and> (\<forall>i u e. Some (i, u) \<in> set rs \<longrightarrow> tracked_object (e ++ u))"
    using Cons.IH [OF i' g] .
  moreover have "\<forall>i u e. r = Some (i, u) \<longrightarrow> tracked_object (e ++ u)"
    using invariant_update_position(2) [OF Cons.prems(1) u] by blast
  ultimately show ?case unfolding res by auto
qed

lemma invariant_apply_results:
  assumes "catalog_invariant s" "\<forall>i u e. Some (i, u) \<in> set results \<longrightarrow> tracked_object (e ++ u)"
  shows "catalog_invariant (snd (apply_results s results))"
  using assms
proof (induction s results rule: apply_results.induct)
  case (1 s)
  then show ?case by simp
next
  case (2 s results)
  then show ?case by simp
next
  case (3 s satid updates results)
  have u: "\<And>e. tracked_object (e ++ updates)" using "3.prems"(2) by simp
  show ?case
  proof (cases "merge_refresh s satid updates")
    case (Inl e)
    then show ?thesis using "3.prems"(1) by simp
  next
    case (Inr s1)
    then have "catalog_invariant s1"
      using "3.prems"(1) invariant_update_entry [of s satid updates s1] u
      by (auto simp: merge_refresh_def split: if_splits)
    then show ?thesis using "3.IH" [OF Inr] "3.prems"(2) Inr by simp
  qed
qed

lemma invariant_refresh_batches:
  "catalog_invariant s \<Longrightarrow>
   catalog_invariant (snd (refresh_batches sf positions_src now sats_to_update batch_size i s))"
proof (induction sf positions_src now sats_to_update batch_size i s rule: refresh_batches.induct)
  case (1 sf positions_src now sats_to_update batch_size i s)
  show ?case
  proof (cases "batch_size = 0 \<or> length sats_to_update \<le> i")
    case True
    then show ?thesis using "1.prems" by (subst refresh_batches.simps) simp
  next
    case False
    let ?batch = "take batch_size (drop i sats_to_update)"
    obtain results s1 where g: "gather_positions sf positions_src now s ?batch = (results, s1)"
      by (cases "gather_positions sf positions_src now s ?batch")
    have gi: "catalog_invariant s1"
      and gr: "\<forall>i u e. Some (i, u) \<in> set results \<longrightarrow> tracked_object (e ++ u)"
      using invariant_gather_positions [OF "1.prems" g] by blast+
    obtain r s2 where a: "apply_results s1 results = (r, s2)"
      by (cases "apply_results s1 results")
    have s2: "catalog_invariant s2"
      using invariant_apply_results [OF gi gr] a by simp
    show ?thesis
    proof (cases r)
      case None
      have "catalog_invariant (snd (refresh_batches sf positions_src now sats_to_update batch_size
          (i + batch_size) s2))"
        using "1.IH" [OF False refl g [symmetric] refl a [symmetric] None s2] .
      then show ?thesis
        using False g a None by (subst refresh_batches.simps) simp
    next
      case (Some e)
      then show ?thesis
        using False g a s2 by (subst refresh_batches.simps) simp
    qed
  qed
qed

lemma invariant_positions_pass:
  "catalog_invariant s \<Longrightarrow> catalog_invariant (positions_pass sf positions_src now s)"
  unfolding positions_pass_def Let_def by (rule invariant_refresh_batches)

lemma demo_entry_tracked_object:
  assumes "demo_entry sf now e = Inr e'" "tracked_object e"
  shows "tracked_object e'"
proof -
  from assms(1) obtain lng lat where "e' = e(''satlng'' \<mapsto> PFloat lng, ''satlat'' \<mapsto> PFloat lat,
      ''last_update'' \<mapsto> PFloat now)"
    unfolding demo_entry_def ebind_def Let_def by (auto split: sum.splits if_splits)
  then show ?thesis
    using assms(2) by (auto simp: tracked_object_def dget_def dget_default_def)
qed

lemma invariant_demo_step_loop:
  "catalog_invariant s \<Longrightarrow> list_all (\<lambda>a. a < length (heap s)) refs \<Longrightarrow>
   catalog_invariant (snd (demo_step_loop sf now s refs))"
proof (induction refs arbitrary: s)
  case Nil
  then show ?case by simp
next
  case (Cons a refs)
  show ?case
  proof (cases "demo_entry sf now (heap s ! a)")
    case (Inl e)
    then show ?thesis using Cons.prems by simp
  next
    case (Inr e')
    have a: "a < length (heap s)" using Cons.prems(2) by simp
    then have "tracked_object (heap s ! a)"
      using Cons.prems(1) by (simp add: catalog_invariant_def list_all_iff)
    then have e': "tracked_object e'" using demo_entry_tracked_object [OF Inr] by blast
    let ?s1 = "s\<lparr>heap := (heap s)[a := e']\<rparr>"
    have "list_all tracked_object (heap ?s1)"
      using Cons.prems(1) e' unfolding catalog_invariant_def list_all_iff
      by (auto dest!: set_update_subset_insert [THEN subsetD])
    then have "catalog_invariant ?s1"
      using Cons.prems(1) by (simp add: catalog_invariant_def wf_state_def)
    moreover have "list_all (\<lambda>a. a < length (heap ?s1)) refs"
      using Cons.prems(2) by simp
    ultimately show ?thesis using Cons.IH Inr by simp
  qed
qed

lemma invariant_demo_step:
  "catalog_invariant s \<Longrightarrow> catalog_invariant (snd (demo_step sf now s))"
  unfolding demo_step_def
  by (rule invariant_demo_step_loop) (simp_all add: catalog_invariant_def wf_state_def)

end
